theory Spec2Isabelle
  imports Main "HOL-Library.Signed_Division"
begin

section \<open>The memory model\<close>

text \<open>
  \<^verbatim>\<open>Vector<E>\<close> (include/Vector.h) owns an array allocated with \<^verbatim>\<open>new E[N]\<close> and
  frees it with \<^verbatim>\<open>delete[]\<close>. Its member functions take other vectors by
  reference, build temporaries and exchange array pointers, so the model keeps
  two explicit stores: the arrays (\<open>heap\<close>) and the \<^verbatim>\<open>Vector\<close> objects (\<open>objs\<close>).
  Both are lists indexed by address. An allocation appends a cell, so a new
  address is the length of the store and is never reused; a freed array and a
  destroyed object leave \<open>None\<close> in their cell.

  A pointer \<^verbatim>\<open>E*\<close> (the class uses it as its iterator) is the array it points
  into and an offset; the base \<open>None\<close> is the null pointer.

  The fields \<^verbatim>\<open>n\<close> and \<^verbatim>\<open>N\<close> are C++ \<^verbatim>\<open>int\<close>s. They are modelled as integers, and
  the three capacity computations of the source (\<^verbatim>\<open>N * 2\<close> twice,
  \<^verbatim>\<open>N + that.N\<close>) are checked against the range of a 32-bit \<^verbatim>\<open>int\<close>: outside
  of it the C++ program has undefined behaviour. The divisions \<^verbatim>\<open>N / 4\<close> and
  \<^verbatim>\<open>N / 2\<close> truncate towards zero (\<open>sdiv\<close>).
\<close>

type_synonym addr = nat
type_synonym oid = nat
type_synonym ptr = "addr option \<times> int"

record Vector =
  n :: int
  N :: int
  pv :: ptr

text \<open>\<open>E0\<close> is the value-initialised element \<^verbatim>\<open>E()\<close> that \<^verbatim>\<open>new E[N]()\<close> puts in every slot.\<close>

record 'e world =
  objs :: "Vector option list"
  heap :: "'e list option list"
  E0 :: 'e

text \<open>
  What a call can do besides returning: throw (the world at the throw is kept, to
  see what the caller observes after catching), stop at a failed \<^verbatim>\<open>assert\<close>, or
  run into undefined behaviour.
\<close>

datatype exn = out_of_range string | bad_array_new_length

datatype ub = SignedOverflow | BadAccess | BadDelete | DeadObject

datatype 'e fault = Throw exn "'e world" | AssertFailed | Undefined ub

definition bnd :: "'f + 'a \<Rightarrow> ('a \<Rightarrow> 'f + 'b) \<Rightarrow> 'f + 'b" where
  "bnd m f = (case m of Inl e \<Rightarrow> Inl e | Inr x \<Rightarrow> f x)"

definition INT_MAX :: int where
  "INT_MAX = 2147483647"

definition DEFAULT_CAPACITY :: int where
  "DEFAULT_CAPACITY = 10"

text \<open>The result of an \<^verbatim>\<open>int\<close> computation: undefined when it leaves the range of \<^verbatim>\<open>int\<close>.\<close>

definition as_int :: "int \<Rightarrow> 'e fault + int" where
  "as_int k = (if - INT_MAX - 1 \<le> k \<and> k \<le> INT_MAX then Inr k else Inl (Undefined SignedOverflow))"

subsection \<open>Arrays\<close>

text \<open>\<^verbatim>\<open>new E[count]()\<close>; a negative count throws \<^verbatim>\<open>std::bad_array_new_length\<close>.\<close>

definition new_array :: "'e world \<Rightarrow> int \<Rightarrow> 'e fault + ('e world \<times> ptr)" where
  "new_array w count =
     (if count < 0 then Inl (Throw bad_array_new_length w)
      else Inr (w\<lparr>heap := heap w @ [Some (replicate (nat count) (E0 w))]\<rparr>,
                (Some (length (heap w)), 0)))"

text \<open>\<^verbatim>\<open>delete[] p\<close>: nothing for the null pointer, undefined for anything that is
  not the start of a live array.\<close>

definition delete_array :: "'e world \<Rightarrow> ptr \<Rightarrow> 'e fault + 'e world" where
  "delete_array w p =
     (case p of
        (None, k) \<Rightarrow> if k = 0 then Inr w else Inl (Undefined BadDelete)
      | (Some a, k) \<Rightarrow>
          if k = 0 \<and> a < length (heap w) \<and> heap w ! a \<noteq> None
          then Inr (w\<lparr>heap := (heap w)[a := None]\<rparr>)
          else Inl (Undefined BadDelete))"

text \<open>\<^verbatim>\<open>std::next(p, k)\<close> on a pointer.\<close>

definition next_p :: "ptr \<Rightarrow> int \<Rightarrow> ptr" where
  "next_p p k = (fst p, snd p + k)"

text \<open>Reading and writing \<^verbatim>\<open>*p\<close>: defined inside a live array only.\<close>

definition read_at :: "'e world \<Rightarrow> ptr \<Rightarrow> 'e fault + 'e" where
  "read_at w p =
     (case fst p of
        None \<Rightarrow> Inl (Undefined BadAccess)
      | Some a \<Rightarrow>
          if a < length (heap w) then
            (case heap w ! a of
               None \<Rightarrow> Inl (Undefined BadAccess)
             | Some buf \<Rightarrow>
                 if 0 \<le> snd p \<and> snd p < int (length buf) then Inr (buf ! nat (snd p))
                 else Inl (Undefined BadAccess))
          else Inl (Undefined BadAccess))"

definition write_at :: "'e world \<Rightarrow> ptr \<Rightarrow> 'e \<Rightarrow> 'e fault + 'e world" where
  "write_at w p x =
     (case fst p of
        None \<Rightarrow> Inl (Undefined BadAccess)
      | Some a \<Rightarrow>
          if a < length (heap w) then
            (case heap w ! a of
               None \<Rightarrow> Inl (Undefined BadAccess)
             | Some buf \<Rightarrow>
                 if 0 \<le> snd p \<and> snd p < int (length buf)
                 then Inr (w\<lparr>heap := (heap w)[a := Some (buf[nat (snd p) := x])]\<rparr>)
                 else Inl (Undefined BadAccess))
          else Inl (Undefined BadAccess))"

text \<open>
  The loops of \<^verbatim>\<open>std::copy\<close> and \<^verbatim>\<open>std::move\<close>
  (\<^verbatim>\<open>while (first != last) *d_first++ = *first++;\<close>) and of \<^verbatim>\<open>std::move_backward\<close>
  (\<^verbatim>\<open>while (first != last) *(--d_last) = std::move(*(--last));\<close>), by the number of
  elements left. Moving an element is modelled as copying its value: the
  moved-from slot keeps it (as it does for a scalar \<^verbatim>\<open>E\<close>), and no function of
  the class reads a slot it has moved from before writing it again.
\<close>

fun copy_loop :: "'e world \<Rightarrow> ptr \<Rightarrow> nat \<Rightarrow> ptr \<Rightarrow> 'e fault + 'e world" where
  "copy_loop w first_p 0 d_first = Inr w"
| "copy_loop w first_p (Suc k) d_first =
     bnd (read_at w first_p) (\<lambda>x.
     bnd (write_at w d_first x) (\<lambda>w'.
     copy_loop w' (next_p first_p 1) k (next_p d_first 1)))"

fun backward_loop :: "'e world \<Rightarrow> ptr \<Rightarrow> nat \<Rightarrow> ptr \<Rightarrow> 'e fault + 'e world" where
  "backward_loop w last_p 0 d_last = Inr w"
| "backward_loop w last_p (Suc k) d_last =
     bnd (read_at w (next_p last_p (- 1))) (\<lambda>x.
     bnd (write_at w (next_p d_last (- 1)) x) (\<lambda>w'.
     backward_loop w' (next_p last_p (- 1)) k (next_p d_last (- 1))))"

text \<open>The number of elements of \<open>[first, last)\<close>; a pair that is not a range is \<open>None\<close>.\<close>

definition range_len :: "ptr \<Rightarrow> ptr \<Rightarrow> nat option" where
  "range_len first_p last_p =
     (if fst first_p = fst last_p \<and> snd first_p \<le> snd last_p
      then Some (nat (snd last_p - snd first_p)) else None)"

definition std_copy :: "'e world \<Rightarrow> ptr \<Rightarrow> ptr \<Rightarrow> ptr \<Rightarrow> 'e fault + 'e world" where
  "std_copy w first_p last_p d_first =
     (case range_len first_p last_p of
        None \<Rightarrow> Inl (Undefined BadAccess)
      | Some k \<Rightarrow> copy_loop w first_p k d_first)"

definition std_move :: "'e world \<Rightarrow> ptr \<Rightarrow> ptr \<Rightarrow> ptr \<Rightarrow> 'e fault + 'e world" where
  "std_move w first_p last_p d_first = std_copy w first_p last_p d_first"

definition std_move_backward :: "'e world \<Rightarrow> ptr \<Rightarrow> ptr \<Rightarrow> ptr \<Rightarrow> 'e fault + 'e world" where
  "std_move_backward w first_p last_p d_last =
     (case range_len first_p last_p of
        None \<Rightarrow> Inl (Undefined BadAccess)
      | Some k \<Rightarrow> backward_loop w last_p k d_last)"

subsection \<open>Objects\<close>

text \<open>\<^verbatim>\<open>*this\<close>: using an object that does not exist (any more) is undefined.\<close>

definition deref :: "'e world \<Rightarrow> oid \<Rightarrow> 'e fault + Vector" where
  "deref w p =
     (if p < length (objs w) then
        (case objs w ! p of None \<Rightarrow> Inl (Undefined DeadObject) | Some v \<Rightarrow> Inr v)
      else Inl (Undefined DeadObject))"

definition put :: "'e world \<Rightarrow> oid \<Rightarrow> Vector \<Rightarrow> 'e world" where
  "put w p v = w\<lparr>objs := (objs w)[p := Some v]\<rparr>"

definition new_object :: "'e world \<Rightarrow> Vector \<Rightarrow> 'e world \<times> oid" where
  "new_object w v = (w\<lparr>objs := objs w @ [Some v]\<rparr>, length (objs w))"

section \<open>The class Vector\<close>

text \<open>Every member function takes the world and \<^verbatim>\<open>this\<close>.\<close>

definition valid :: "Vector \<Rightarrow> int \<Rightarrow> bool" where
  "valid v i = (i \<ge> 0 \<and> i < n v)"

definition begin_v :: "Vector \<Rightarrow> ptr" where
  "begin_v v = pv v"

definition end_v :: "Vector \<Rightarrow> ptr" where
  "end_v v = next_p (pv v) (n v)"

definition size_v :: "'e world \<Rightarrow> oid \<Rightarrow> 'e fault + int" where
  "size_v w this = bnd (deref w this) (\<lambda>v. Inr (n v))"

definition capacity :: "'e world \<Rightarrow> oid \<Rightarrow> 'e fault + int" where
  "capacity w this = bnd (deref w this) (\<lambda>v. Inr (N v))"

definition empty_v :: "Vector \<Rightarrow> bool" where
  "empty_v v = (n v = 0)"

text \<open>\<^verbatim>\<open>explicit Vector(int count = DEFAULT_CAPACITY)\<close>\<close>

definition Vector_ctor :: "'e world \<Rightarrow> int \<Rightarrow> 'e fault + ('e world \<times> oid)" where
  "Vector_ctor w count =
     bnd (new_array w count) (\<lambda>(w1, p).
     Inr (new_object w1 \<lparr>n = 0, N = count, pv = p\<rparr>))"

text \<open>\<^verbatim>\<open>Vector(const Vector& that)\<close>; \<^verbatim>\<open>new E[N]\<close> leaves the slots default-initialised,
  the copy then fills the first \<^verbatim>\<open>n\<close>.\<close>

definition Vector_copy :: "'e world \<Rightarrow> oid \<Rightarrow> 'e fault + ('e world \<times> oid)" where
  "Vector_copy w that =
     bnd (deref w that) (\<lambda>t.
     bnd (new_array w (N t)) (\<lambda>(w1, p).
     case new_object w1 \<lparr>n = n t, N = N t, pv = p\<rparr> of (w2, this) \<Rightarrow>
     bnd (std_copy w2 (begin_v t) (end_v t) p) (\<lambda>w3.
     Inr (w3, this))))"

text \<open>\<^verbatim>\<open>Vector(Vector&& that) noexcept\<close>\<close>

definition Vector_move :: "'e world \<Rightarrow> oid \<Rightarrow> 'e fault + ('e world \<times> oid)" where
  "Vector_move w that =
     bnd (deref w that) (\<lambda>t.
     case new_object w \<lparr>n = n t, N = N t, pv = pv t\<rparr> of (w1, this) \<Rightarrow>
     Inr (put w1 that (t\<lparr>pv := (None, 0)\<rparr>), this))"

text \<open>\<^verbatim>\<open>~Vector() { delete[] pv; }\<close>, after which the object is gone.\<close>

definition Vector_dtor :: "'e world \<Rightarrow> oid \<Rightarrow> 'e fault + 'e world" where
  "Vector_dtor w this =
     bnd (deref w this) (\<lambda>v.
     bnd (delete_array w (pv v)) (\<lambda>w1.
     Inr (w1\<lparr>objs := (objs w1)[this := None]\<rparr>)))"

definition swap_v :: "'e world \<Rightarrow> oid \<Rightarrow> oid \<Rightarrow> 'e fault + 'e world" where
  "swap_v w this that =
     bnd (deref w this) (\<lambda>a.
     bnd (deref w that) (\<lambda>b.
     Inr (put (put w this (a\<lparr>n := n b, N := N b, pv := pv b\<rparr>))
              that (b\<lparr>n := n a, N := N a, pv := pv a\<rparr>))))"

definition clear :: "'e world \<Rightarrow> oid \<Rightarrow> 'e fault + 'e world" where
  "clear w this = bnd (deref w this) (\<lambda>v. Inr (put w this (v\<lparr>n := 0\<rparr>)))"

text \<open>\<^verbatim>\<open>reserve(int count)\<close>: the temporary \<^verbatim>\<open>tmp\<close> is an object of its own, destroyed
  on return with the array \<^verbatim>\<open>*this\<close> had before.\<close>

definition reserve :: "'e world \<Rightarrow> oid \<Rightarrow> int \<Rightarrow> 'e fault + 'e world" where
  "reserve w this count =
     bnd (deref w this) (\<lambda>v.
     if \<not> count \<ge> n v then Inl AssertFailed
     else
       bnd (Vector_ctor w count) (\<lambda>(w1, tmp).
       bnd (deref w1 tmp) (\<lambda>t.
       bnd (std_move w1 (begin_v v) (end_v v) (begin_v t)) (\<lambda>w2.
       bnd (swap_v (put w2 tmp (t\<lparr>n := n v\<rparr>)) this tmp) (\<lambda>w3.
       Vector_dtor w3 tmp)))))"

text \<open>\<^verbatim>\<open>operator[]\<close>: no check.\<close>

definition op_index :: "'e world \<Rightarrow> oid \<Rightarrow> int \<Rightarrow> 'e fault + 'e" where
  "op_index w this i = bnd (deref w this) (\<lambda>v. read_at w (next_p (begin_v v) i))"

definition insert_back :: "'e world \<Rightarrow> oid \<Rightarrow> 'e \<Rightarrow> 'e fault + 'e world" where
  "insert_back w this elem =
     bnd (deref w this) (\<lambda>v.
     bnd (if n v = N v then bnd (as_int (N v * 2)) (reserve w this) else Inr w) (\<lambda>w1.
     bnd (deref w1 this) (\<lambda>v1.
     bnd (write_at w1 (next_p (begin_v v1) (n v1)) elem) (\<lambda>w2.
     Inr (put w2 this (v1\<lparr>n := n v1 + 1\<rparr>))))))"

text \<open>
  \<^verbatim>\<open>insert(iterator pos, E elem)\<close>: the body never uses \<^verbatim>\<open>pos\<close>; it is written in
  terms of an index \<^verbatim>\<open>i\<close>, the parameter its documentation names
  (\<^verbatim>\<open>@param i\<close>). The model takes that index.
\<close>

definition insert_v :: "'e world \<Rightarrow> oid \<Rightarrow> int \<Rightarrow> 'e \<Rightarrow> 'e fault + 'e world" where
  "insert_v w this i elem =
     bnd (deref w this) (\<lambda>v.
     if i = n v then insert_back w this elem
     else if \<not> valid v i then Inl (Throw (out_of_range ''Vector::insert() i out of range.'') w)
     else
       bnd (if n v = N v then bnd (as_int (N v * 2)) (reserve w this) else Inr w) (\<lambda>w1.
       bnd (deref w1 this) (\<lambda>v1.
       bnd (std_move_backward w1 (next_p (begin_v v1) i) (end_v v1)
              (next_p (begin_v v1) (n v1 + 1))) (\<lambda>w2.
       bnd (write_at w2 (next_p (begin_v v1) i) elem) (\<lambda>w3.
       Inr (put w3 this (v1\<lparr>n := n v1 + 1\<rparr>)))))))"

definition remove_back :: "'e world \<Rightarrow> oid \<Rightarrow> 'e fault + 'e world" where
  "remove_back w this =
     bnd (deref w this) (\<lambda>v.
     if empty_v v then Inl (Throw (out_of_range ''Vector::remove_back'') w)
     else if n v > 0 \<and> n v = N v sdiv 4 then reserve w this (N v sdiv 2)
     else Inr w)"

text \<open>\<^verbatim>\<open>remove(iterator pos)\<close>: written in terms of the index \<^verbatim>\<open>i\<close>, as \<^verbatim>\<open>insert\<close> is.\<close>

definition remove :: "'e world \<Rightarrow> oid \<Rightarrow> int \<Rightarrow> 'e fault + 'e world" where
  "remove w this i =
     bnd (deref w this) (\<lambda>v.
     if i = n v - 1 then remove_back w this
     else if \<not> valid v i then Inl (Throw (out_of_range ''Vector::remove() i out of range.'') w)
     else
       bnd (std_move w (next_p (begin_v v) (i + 1)) (end_v v) (next_p (begin_v v) i)) (\<lambda>w1.
       case put w1 this (v\<lparr>n := n v - 1\<rparr>) of w2 \<Rightarrow>
       bnd (deref w2 this) (\<lambda>v2.
       if n v2 > 0 \<and> n v2 = N v2 sdiv 4 then reserve w2 this (N v2 sdiv 2)
       else Inr w2)))"

definition front_v :: "'e world \<Rightarrow> oid \<Rightarrow> 'e fault + 'e" where
  "front_v w this =
     bnd (deref w this) (\<lambda>v.
     if empty_v v then Inl (Throw (out_of_range ''Vector::front'') w)
     else read_at w (begin_v v))"

definition back_v :: "'e world \<Rightarrow> oid \<Rightarrow> 'e fault + 'e" where
  "back_v w this =
     bnd (deref w this) (\<lambda>v.
     if empty_v v then Inl (Throw (out_of_range ''Vector::back'') w)
     else read_at w (next_p (end_v v) (- 1)))"

definition at :: "'e world \<Rightarrow> oid \<Rightarrow> int \<Rightarrow> 'e fault + 'e" where
  "at w this i =
     bnd (deref w this) (\<lambda>v.
     if \<not> valid v i then Inl (Throw (out_of_range ''Vector::at'') w)
     else op_index w this i)"

text \<open>\<^verbatim>\<open>operator=(Vector that)\<close> called with an lvalue \<^verbatim>\<open>src\<close>: the parameter is
  copy-constructed from it and destroyed after the swap.\<close>

definition op_assign :: "'e world \<Rightarrow> oid \<Rightarrow> oid \<Rightarrow> 'e fault + 'e world" where
  "op_assign w this src =
     bnd (Vector_copy w src) (\<lambda>(w1, that).
     bnd (swap_v w1 this that) (\<lambda>w2.
     Vector_dtor w2 that))"

text \<open>\<^verbatim>\<open>operator+=(const Vector& that)\<close>: \<^verbatim>\<open>that\<close> may be \<^verbatim>\<open>*this\<close>, so each of its
  fields is read from the world as it is at that point.\<close>

definition op_plus_assign :: "'e world \<Rightarrow> oid \<Rightarrow> oid \<Rightarrow> 'e fault + 'e world" where
  "op_plus_assign w this that =
     bnd (deref w this) (\<lambda>v.
     bnd (deref w that) (\<lambda>t.
     bnd (as_int (N v + N t)) (\<lambda>count.
     bnd (reserve w this count) (\<lambda>w1.
     bnd (deref w1 this) (\<lambda>v1.
     bnd (deref w1 that) (\<lambda>t1.
     bnd (std_copy w1 (begin_v t1) (end_v t1) (end_v v1)) (\<lambda>w2.
     bnd (deref w2 this) (\<lambda>v2.
     bnd (deref w2 that) (\<lambda>t2.
     Inr (put w2 this (v2\<lparr>n := n v2 + n t2\<rparr>)))))))))))"

text \<open>\<^verbatim>\<open>operator+(Vector lhs, const Vector& rhs)\<close>: \<^verbatim>\<open>lhs\<close> is a copy of the first
  argument; the result is move-constructed from it, then \<^verbatim>\<open>lhs\<close> is destroyed.\<close>

definition op_plus :: "'e world \<Rightarrow> oid \<Rightarrow> oid \<Rightarrow> 'e fault + ('e world \<times> oid)" where
  "op_plus w a rhs =
     bnd (Vector_copy w a) (\<lambda>(w1, lhs).
     bnd (op_plus_assign w1 lhs rhs) (\<lambda>w2.
     bnd (Vector_move w2 lhs) (\<lambda>(w3, res).
     bnd (Vector_dtor w3 lhs) (\<lambda>w4.
     Inr (w4, res)))))"

section \<open>Callers and observations\<close>

text \<open>
  A vector is well formed in a world when \<^verbatim>\<open>0 <= n <= N\<close> and \<^verbatim>\<open>pv\<close> is the start
  of a live array of \<^verbatim>\<open>N\<close> slots. Every constructor establishes this (the move
  constructor breaks it for its argument).
\<close>

definition wf_vector :: "'e world \<Rightarrow> Vector \<Rightarrow> bool" where
  "wf_vector w v =
     (0 \<le> n v \<and> n v \<le> N v \<and>
      (case pv v of
         (None, k) \<Rightarrow> False
       | (Some a, k) \<Rightarrow>
           k = 0 \<and> a < length (heap w) \<and>
           (case heap w ! a of None \<Rightarrow> False | Some buf \<Rightarrow> int (length buf) = N v)))"

text \<open>The elements a traversal from \<^verbatim>\<open>begin()\<close> to \<^verbatim>\<open>end()\<close> visits.\<close>

definition elems :: "'e world \<Rightarrow> oid \<Rightarrow> 'e list" where
  "elems w this =
     (case deref w this of
        Inl f \<Rightarrow> []
      | Inr v \<Rightarrow>
          (case pv v of
             (None, k) \<Rightarrow> []
           | (Some a, k) \<Rightarrow>
               if a < length (heap w) then
                 (case heap w ! a of None \<Rightarrow> [] | Some buf \<Rightarrow> take (nat (n v)) buf)
               else []))"

text \<open>Whether a call threw \<^verbatim>\<open>std::out_of_range\<close>, and the world it left behind.\<close>

definition raised :: "'e fault + 'a \<Rightarrow> 'e world option" where
  "raised r =
     (case r of
        Inl (Throw (out_of_range msg) w) \<Rightarrow> Some w
      | _ \<Rightarrow> None)"

text \<open>The loops of the scenario of section 8 of the specification.\<close>

fun insert_back_each :: "'e world \<Rightarrow> oid \<Rightarrow> 'e list \<Rightarrow> 'e fault + 'e world" where
  "insert_back_each w this [] = Inr w"
| "insert_back_each w this (x # xs) =
     bnd (insert_back w this x) (\<lambda>w'. insert_back_each w' this xs)"

fun remove_back_times :: "'e world \<Rightarrow> oid \<Rightarrow> nat \<Rightarrow> 'e fault + 'e world" where
  "remove_back_times w this 0 = Inr w"
| "remove_back_times w this (Suc k) =
     bnd (remove_back w this) (\<lambda>w'. remove_back_times w' this k)"

text \<open>
  A client program: a list of calls of the public operations that change a
  vector, on vectors that are all created with the default capacity. The client
  catches \<^verbatim>\<open>std::out_of_range\<close> and goes on; anything else ends the run.
\<close>

datatype 'e call =
    Create
  | InsertBack oid 'e
  | Insert oid int 'e
  | Remove oid int
  | RemoveBack oid
  | Clear oid
  | Swap oid oid
  | Assign oid oid
  | PlusAssign oid oid
  | Plus oid oid

fun exec :: "'e world \<Rightarrow> 'e call \<Rightarrow> 'e fault + 'e world" where
  "exec w Create = bnd (Vector_ctor w DEFAULT_CAPACITY) (\<lambda>(w', v). Inr w')"
| "exec w (InsertBack v x) = insert_back w v x"
| "exec w (Insert v i x) = insert_v w v i x"
| "exec w (Remove v i) = remove w v i"
| "exec w (RemoveBack v) = remove_back w v"
| "exec w (Clear v) = clear w v"
| "exec w (Swap v u) = swap_v w v u"
| "exec w (Assign v u) = op_assign w v u"
| "exec w (PlusAssign v u) = op_plus_assign w v u"
| "exec w (Plus v u) = bnd (op_plus w v u) (\<lambda>(w', r). Inr w')"

fun run :: "'e world \<Rightarrow> 'e call list \<Rightarrow> 'e fault + 'e world" where
  "run w [] = Inr w"
| "run w (c # cs) =
     (case exec w c of
        Inr w' \<Rightarrow> run w' cs
      | Inl (Throw (out_of_range msg) w') \<Rightarrow> run w' cs
      | Inl f \<Rightarrow> Inl f)"

definition empty_world :: "'e \<Rightarrow> 'e world" where
  "empty_world e = \<lparr>objs = [], heap = [], E0 = e\<rparr>"

text \<open>The invariant of a run: every live vector is well formed, has a capacity of
  at least 2, and shares its array with no other vector.\<close>

definition inv_world :: "'e world \<Rightarrow> bool" where
  "inv_world w =
     (\<forall>p v. deref w p = Inr v \<longrightarrow>
        wf_vector w v \<and> 2 \<le> N v \<and>
        (\<forall>q u. q \<noteq> p \<and> deref w q = Inr u \<longrightarrow> fst (pv u) \<noteq> fst (pv v)))"

section \<open>Notions used in the proofs\<close>

text \<open>What a copy loop leaves in the destination array \<open>B\<close>: \<open>k\<close> elements of \<open>A\<close>
  from position \<open>s\<close>, placed at position \<open>t\<close>.\<close>

definition blit :: "'e list \<Rightarrow> nat \<Rightarrow> nat \<Rightarrow> 'e list \<Rightarrow> nat \<Rightarrow> 'e list" where
  "blit A s k B t = take t B @ take k (drop s A) @ drop (t + k) B"

text \<open>The world after \<^verbatim>\<open>reserve(count)\<close> on a vector \<open>v\<close> whose array \<open>buf\<close> is at \<open>a\<close>:
  a new array holds the elements, the old one is freed, and the cell of the
  temporary is dead.\<close>

definition reserved :: "'e world \<Rightarrow> oid \<Rightarrow> Vector \<Rightarrow> addr \<Rightarrow> 'e list \<Rightarrow> int \<Rightarrow> 'e world" where
  "reserved w this v a buf count =
     w\<lparr>objs := (objs w @ [None])[this := Some (v\<lparr>N := count, pv := (Some (length (heap w)), 0)\<rparr>)],
       heap := (heap w @ [Some (take (nat (n v)) buf @ replicate (nat count - nat (n v)) (E0 w))])[a := None]\<rparr>"

text \<open>The world after a change in place: new contents of the array at \<open>a\<close>, new
  fields of the vector.\<close>

definition updated :: "'e world \<Rightarrow> oid \<Rightarrow> Vector \<Rightarrow> addr \<Rightarrow> 'e list \<Rightarrow> 'e world" where
  "updated w this v a buf = w\<lparr>heap := (heap w)[a := Some buf], objs := (objs w)[this := Some v]\<rparr>"

text \<open>Which addresses hold a live array.\<close>

definition allocated :: "'e world \<Rightarrow> bool list" where
  "allocated w = map (\<lambda>c. c \<noteq> None) (heap w)"

text \<open>
  What a member function called on \<open>this\<close> (with fields \<open>v\<close> before the call) leaves
  alone: no array disappears from the address range, every other live vector
  was live with the same fields, and every array but the one of \<open>v\<close> keeps its
  length. \<open>post\<close> adds what holds for \<open>this\<close> afterwards: it is well formed, and
  its array is the old one or a newly allocated one.
\<close>

definition frame :: "'e world \<Rightarrow> oid \<Rightarrow> Vector \<Rightarrow> 'e world \<Rightarrow> bool" where
  "frame w this v w' =
     (length (heap w) \<le> length (heap w') \<and>
      (\<forall>p u. p \<noteq> this \<and> deref w' p = Inr u \<longrightarrow> deref w p = Inr u) \<and>
      (\<forall>b<length (heap w). Some b \<noteq> fst (pv v) \<longrightarrow>
         map_option length (heap w' ! b) = map_option length (heap w ! b)))"

definition post :: "'e world \<Rightarrow> oid \<Rightarrow> Vector \<Rightarrow> 'e world \<Rightarrow> Vector \<Rightarrow> bool" where
  "post w this v w' v' =
     (deref w' this = Inr v' \<and> wf_vector w' v' \<and> frame w this v w' \<and>
      (fst (pv v') = fst (pv v) \<or> (\<exists>a'. fst (pv v') = Some a' \<and> length (heap w) \<le> a')))"

text \<open>The world a fault carries when it is a thrown \<^verbatim>\<open>std::out_of_range\<close>.\<close>

definition thrown :: "'e fault \<Rightarrow> 'e world option" where
  "thrown f = (case f of Throw (out_of_range msg) w \<Rightarrow> Some w | _ \<Rightarrow> None)"

text \<open>A world with two vectors of default capacity, holding 7 and 8, 9.\<close>

definition vec_1 :: Vector where
  "vec_1 = \<lparr>n = 1, N = 10, pv = (Some 0, 0)\<rparr>"

definition vec_2 :: Vector where
  "vec_2 = \<lparr>n = 2, N = 10, pv = (Some 1, 0)\<rparr>"

definition world_2 :: "int world" where
  "world_2 =
     \<lparr>objs = [Some vec_1, Some vec_2],
      heap = [Some [7, 0, 0, 0, 0, 0, 0, 0, 0, 0], Some [8, 9, 0, 0, 0, 0, 0, 0, 0, 0]],
      E0 = 0\<rparr>"

text \<open>The same world after \<^verbatim>\<open>Vector<int> y(std::move(x))\<close> for the first vector.\<close>

definition world_2_moved :: "int world" where
  "world_2_moved =
     \<lparr>objs = [Some \<lparr>n = 1, N = 10, pv = (None, 0)\<rparr>, Some vec_2, Some vec_1],
      heap = [Some [7, 0, 0, 0, 0, 0, 0, 0, 0, 0], Some [8, 9, 0, 0, 0, 0, 0, 0, 0, 0]],
      E0 = 0\<rparr>"

text \<open>The world after creating a vector, three \<^verbatim>\<open>insert_back\<close> and \<^verbatim>\<open>remove\<close> at index 0.\<close>

definition world_shrunk :: "int world" where
  "world_shrunk =
     \<lparr>objs = [Some \<lparr>n = 2, N = 5, pv = (Some 1, 0)\<rparr>, None],
      heap = [None, Some [2, 3, 0, 0, 0]],
      E0 = 0\<rparr>"

text \<open>The world \<open>world_2\<close> after \<^verbatim>\<open>remove\<close> at the last index of its second vector.\<close>

definition world_2_tail_removed :: "int world" where
  "world_2_tail_removed =
     \<lparr>objs = [Some vec_1, Some \<lparr>n = 2, N = 5, pv = (Some 2, 0)\<rparr>, None],
      heap = [Some [7, 0, 0, 0, 0, 0, 0, 0, 0, 0], None, Some [8, 9, 0, 0, 0]],
      E0 = 0\<rparr>"


section \<open>Basic facts\<close>

lemma bnd_Inr [simp]: "bnd (Inr x) f = f x"
  by (simp add: bnd_def)

lemma bnd_Inl [simp]: "bnd (Inl e) f = Inl e"
  by (simp add: bnd_def)

lemma bnd_eq_Inr: "bnd m f = Inr y \<longleftrightarrow> (\<exists>x. m = Inr x \<and> f x = Inr y)"
  by (cases m) simp_all

lemma deref_eq_Inr: "deref w p = Inr v \<longleftrightarrow> p < length (objs w) \<and> objs w ! p = Some v"
  by (auto simp: deref_def split: option.splits)

section \<open>Pointers and loops\<close>

lemma read_at_eq:
  "a < length (heap w) \<Longrightarrow> heap w ! a = Some buf \<Longrightarrow> i < length buf \<Longrightarrow>
   read_at w (Some a, int i) = Inr (buf ! i)"
  by (simp add: read_at_def)

lemma write_at_eq:
  "a < length (heap w) \<Longrightarrow> heap w ! a = Some buf \<Longrightarrow> i < length buf \<Longrightarrow>
   write_at w (Some a, int i) x = Inr (w\<lparr>heap := (heap w)[a := Some (buf[i := x])]\<rparr>)"
  by (simp add: write_at_def)

lemma next_p_Suc: "next_p (b, int i) 1 = (b, int (Suc i))"
  by (simp add: next_p_def)

lemma next_p_pred: "next_p (b, int (Suc i)) (- 1) = (b, int i)"
  by (simp add: next_p_def)

lemma blit_0: "blit A s 0 B t = B"
  by (simp add: blit_def)

lemma length_blit: "s + k \<le> length A \<Longrightarrow> t + k \<le> length B \<Longrightarrow> length (blit A s k B t) = length B"
  by (simp add: blit_def)

lemma blit_fwd_step:
  assumes "s + Suc k \<le> length A" "t + Suc k \<le> length B"
    and "A' = A \<or> (A' = A[t := A ! s] \<and> (t \<le> s \<or> s + Suc k \<le> t))"
  shows "blit A' (Suc s) k (B[t := A ! s]) (Suc t) = blit A s (Suc k) B t"
proof -
  have 1: "take (Suc t) (B[t := A ! s]) = take t B @ [A ! s]"
    using assms(2) by (simp add: take_Suc_conv_app_nth)
  have 2: "take (Suc k) (drop s A) = A ! s # take k (drop (Suc s) A)"
    using assms(1) by (simp add: Cons_nth_drop_Suc [symmetric])
  have 3: "take k (drop (Suc s) A') = take k (drop (Suc s) A)"
    using assms(3) by (auto simp: drop_update_swap)
  have 4: "drop (Suc t + k) (B[t := A ! s]) = drop (t + Suc k) B"
    by simp
  show ?thesis
    unfolding blit_def 1 2 3 4 by simp
qed

lemma copy_loop_eq:
  assumes "a < length (heap w)" "b < length (heap w)"
    and "heap w ! a = Some A" "heap w ! b = Some B"
    and "s + k \<le> length A" "t + k \<le> length B"
    and "a \<noteq> b \<or> t \<le> s \<or> s + k \<le> t"
  shows "copy_loop w (Some a, int s) k (Some b, int t) =
         Inr (w\<lparr>heap := (heap w)[b := Some (blit A s k B t)]\<rparr>)"
  using assms
proof (induction k arbitrary: w s t A B)
  case 0
  then show ?case by (simp add: blit_0 list_update_same_conv [THEN iffD2])
next
  case (Suc k)
  let ?x = "A ! s"
  let ?w = "w\<lparr>heap := (heap w)[b := Some (B[t := ?x])]\<rparr>"
  let ?A = "if a = b then B[t := ?x] else A"
  have rd: "read_at w (Some a, int s) = Inr ?x"
    using Suc.prems by (simp add: read_at_eq)
  have wr: "write_at w (Some b, int t) ?x = Inr ?w"
    using Suc.prems by (simp add: write_at_eq)
  have AB: "a = b \<Longrightarrow> A = B"
    using Suc.prems by simp
  have IH: "copy_loop ?w (Some a, int (Suc s)) k (Some b, int (Suc t)) =
        Inr (?w\<lparr>heap := (heap ?w)[b := Some (blit ?A (Suc s) k (B[t := ?x]) (Suc t))]\<rparr>)"
    using Suc.prems by (intro Suc.IH) (auto simp: nth_list_update)
  have "blit ?A (Suc s) k (B[t := ?x]) (Suc t) = blit A s (Suc k) B t"
    using Suc.prems AB by (intro blit_fwd_step) auto
  then show ?case
    by (simp add: rd wr next_p_Suc IH del: of_nat_Suc)
qed

lemma blit_bwd_step:
  assumes "s + Suc k \<le> length A" "t + Suc k \<le> length B"
    and "A' = A \<or> (A' = A[t + k := A ! (s + k)] \<and> (s \<le> t \<or> t + Suc k \<le> s))"
  shows "blit A' s k (B[t + k := A ! (s + k)]) t = blit A s (Suc k) B t"
proof -
  have 1: "take t (B[t + k := A ! (s + k)]) = take t B"
    by simp
  have 2: "take (Suc k) (drop s A) = take k (drop s A) @ [A ! (s + k)]"
    using assms(1) by (simp add: take_Suc_conv_app_nth)
  have 3: "take k (drop s A') = take k (drop s A)"
    using assms(3) by (auto simp: drop_update_swap)
  have 4: "drop (t + k) (B[t + k := A ! (s + k)]) = A ! (s + k) # drop (t + Suc k) B"
    using assms(2) by (simp add: Cons_nth_drop_Suc [symmetric])
  show ?thesis
    unfolding blit_def 1 2 3 4 by simp
qed

lemma backward_loop_eq:
  assumes "a < length (heap w)" "b < length (heap w)"
    and "heap w ! a = Some A" "heap w ! b = Some B"
    and "s + k \<le> length A" "t + k \<le> length B"
    and "a \<noteq> b \<or> s \<le> t \<or> t + k \<le> s"
  shows "backward_loop w (Some a, int (s + k)) k (Some b, int (t + k)) =
         Inr (w\<lparr>heap := (heap w)[b := Some (blit A s k B t)]\<rparr>)"
  using assms
proof (induction k arbitrary: w A B)
  case 0
  then show ?case by (simp add: blit_0 list_update_same_conv [THEN iffD2])
next
  case (Suc k)
  let ?x = "A ! (s + k)"
  let ?w = "w\<lparr>heap := (heap w)[b := Some (B[t + k := ?x])]\<rparr>"
  let ?A = "if a = b then B[t + k := ?x] else A"
  have rd: "read_at w (Some a, int (s + k)) = Inr ?x"
    using Suc.prems by (intro read_at_eq) auto
  have wr: "write_at w (Some b, int (t + k)) ?x = Inr ?w"
    using Suc.prems by (intro write_at_eq) auto
  have AB: "a = b \<Longrightarrow> A = B"
    using Suc.prems by simp
  have IH: "backward_loop ?w (Some a, int (s + k)) k (Some b, int (t + k)) =
        Inr (?w\<lparr>heap := (heap ?w)[b := Some (blit ?A s k (B[t + k := ?x]) t)]\<rparr>)"
    using Suc.prems by (intro Suc.IH) (auto simp: nth_list_update)
  have "blit ?A s k (B[t + k := ?x]) t = blit A s (Suc k) B t"
    using Suc.prems AB by (intro blit_bwd_step) auto
  moreover have "next_p (Some a, int (s + Suc k)) (- 1) = (Some a, int (s + k))"
    "next_p (Some b, int (t + Suc k)) (- 1) = (Some b, int (t + k))"
    by (simp_all add: next_p_def)
  ultimately show ?case
    by (simp add: rd wr IH del: of_nat_Suc of_nat_add add_Suc_right)
qed

section \<open>reserve\<close>

lemma wf_vectorE:
  assumes "wf_vector w v"
  obtains a buf where "pv v = (Some a, 0)" "a < length (heap w)" "heap w ! a = Some buf"
    "int (length buf) = N v" "0 \<le> n v" "n v \<le> N v"
  using assms by (auto simp: wf_vector_def split: prod.splits option.splits)

lemma deref_put: "p < length (objs w) \<Longrightarrow> deref (put w p v) q = (if q = p then Inr v else deref w q)"
  by (simp add: deref_def put_def nth_list_update)

lemma std_copy_eq:
  assumes "a < length (heap w)" "b < length (heap w)"
    and "heap w ! a = Some A" "heap w ! b = Some B"
    and "s + k \<le> length A" "t + k \<le> length B"
    and "a \<noteq> b \<or> t \<le> s \<or> s + k \<le> t"
  shows "std_copy w (Some a, int s) (Some a, int (s + k)) (Some b, int t) =
         Inr (w\<lparr>heap := (heap w)[b := Some (blit A s k B t)]\<rparr>)"
  using copy_loop_eq [OF assms] by (simp add: std_copy_def range_len_def)

lemma reserve_eq:
  assumes "deref w this = Inr v" "pv v = (Some a, 0)" "a < length (heap w)" "heap w ! a = Some buf"
    and "0 \<le> n v" "nat (n v) \<le> length buf" "n v \<le> count"
  shows "reserve w this count = Inr (reserved w this v a buf count)"
proof -
  let ?h = "length (heap w)" and ?tmp = "length (objs w)"
  let ?B = "replicate (nat count) (E0 w)"
  let ?t = "\<lparr>n = 0, N = count, pv = (Some ?h, 0)\<rparr>"
  let ?w1 = "w\<lparr>heap := heap w @ [Some ?B], objs := objs w @ [Some ?t]\<rparr>"
  have live: "this < length (objs w)" "objs w ! this = Some v"
    using assms(1) by (simp_all add: deref_eq_Inr)
  have ctor: "Vector_ctor w count = Inr (?w1, ?tmp)"
    using assms(5,7) by (simp add: Vector_ctor_def new_array_def new_object_def)
  have tmp: "deref ?w1 ?tmp = Inr ?t"
    by (simp add: deref_def)
  have "std_copy ?w1 (Some a, int 0) (Some a, int (0 + nat (n v))) (Some ?h, int 0) =
        Inr (?w1\<lparr>heap := (heap ?w1)[?h := Some (blit buf 0 (nat (n v)) ?B 0)]\<rparr>)"
    using assms by (intro std_copy_eq) (auto simp: nth_append)
  then have mv: "std_move ?w1 (begin_v v) (end_v v) (begin_v ?t) =
        Inr (?w1\<lparr>heap := heap w @ [Some (blit buf 0 (nat (n v)) ?B 0)]\<rparr>)"
    using assms(2,5) by (simp add: std_move_def begin_v_def end_v_def next_p_def)
  have bl: "blit buf 0 (nat (n v)) ?B 0 = take (nat (n v)) buf @ replicate (nat count - nat (n v)) (E0 w)"
    by (simp add: blit_def)
  show ?thesis
    using assms live
    by (simp add: reserve_def ctor tmp mv bl reserved_def swap_v_def put_def deref_def
        Vector_dtor_def delete_array_def nth_append nth_list_update list_update_append)
qed

section \<open>Which calls throw\<close>

lemma raised_Inr [simp]: "raised (Inr x) = None"
  by (simp add: raised_def)

lemma raised_Inl [simp]: "raised (Inl f) = thrown f"
  by (simp add: raised_def thrown_def split: fault.splits exn.splits)

lemma thrown_simps [simp]:
  "thrown (Undefined u) = None"
  "thrown AssertFailed = None"
  "thrown (Throw (out_of_range m) w) = Some w"
  "thrown (Throw bad_array_new_length w) = None"
  by (simp_all add: thrown_def)

lemma raised_bnd:
  "raised (bnd m f) = (case m of Inl e \<Rightarrow> thrown e | Inr x \<Rightarrow> raised (f x))"
  by (cases m) simp_all

lemma raised_bnd_None:
  "raised m = None \<Longrightarrow> (\<And>x. m = Inr x \<Longrightarrow> raised (f x) = None) \<Longrightarrow> raised (bnd m f) = None"
  by (cases m) simp_all

lemma raised_guarded:
  assumes "raised (if c then A else if d then Inl (Throw (out_of_range m) w) else B) = Some w'"
    and "raised A = None \<or> raised A = Some w" and "raised B = None"
  shows "w' = w"
  using assms by (auto split: if_splits)

lemma raised_deref [simp]: "raised (deref w p) = None"
  by (simp add: deref_def split: option.splits)

lemma raised_as_int [simp]: "raised (as_int k) = None"
  by (simp add: as_int_def)

lemma raised_read_at [simp]: "raised (read_at w p) = None"
  by (simp add: read_at_def split: option.splits)

lemma raised_write_at [simp]: "raised (write_at w p x) = None"
  by (simp add: write_at_def split: option.splits)

lemma raised_copy_loop [simp]: "raised (copy_loop w p k q) = None"
proof (induction k arbitrary: w p q)
  case 0
  show ?case by simp
next
  case (Suc k)
  show ?case
    unfolding copy_loop.simps by (intro raised_bnd_None raised_read_at raised_write_at Suc.IH)
qed

lemma raised_backward_loop [simp]: "raised (backward_loop w p k q) = None"
proof (induction k arbitrary: w p q)
  case 0
  show ?case by simp
next
  case (Suc k)
  show ?case
    unfolding backward_loop.simps by (intro raised_bnd_None raised_read_at raised_write_at Suc.IH)
qed

lemma raised_std_copy [simp]: "raised (std_copy w p q r) = None"
  by (simp add: std_copy_def split: option.splits)

lemma raised_std_move [simp]: "raised (std_move w p q r) = None"
  by (simp add: std_move_def)

lemma raised_std_move_backward [simp]: "raised (std_move_backward w p q r) = None"
  by (simp add: std_move_backward_def split: option.splits)

lemma raised_new_array [simp]: "raised (new_array w c) = None"
  by (simp add: new_array_def)

lemma raised_delete_array [simp]: "raised (delete_array w p) = None"
  by (simp add: delete_array_def split: prod.splits option.splits)

lemma raised_Vector_ctor [simp]: "raised (Vector_ctor w c) = None"
  by (auto simp: Vector_ctor_def intro!: raised_bnd_None)

lemma raised_Vector_dtor [simp]: "raised (Vector_dtor w p) = None"
  by (auto simp: Vector_dtor_def intro!: raised_bnd_None)

lemma raised_swap_v [simp]: "raised (swap_v w p q) = None"
  by (auto simp: swap_v_def intro!: raised_bnd_None)

lemma raised_reserve [simp]: "raised (reserve w p c) = None"
  by (auto simp: reserve_def intro!: raised_bnd_None)

lemma raised_insert_back [simp]: "raised (insert_back w p x) = None"
  by (auto simp: insert_back_def intro!: raised_bnd_None)

lemma raised_op_index [simp]: "raised (op_index w p i) = None"
  by (auto simp: op_index_def intro!: raised_bnd_None)

lemma raised_insert_v:
  assumes "deref w this = Inr v" "0 \<le> n v"
  shows "raised (insert_v w this i x) = (if 0 \<le> i \<and> i \<le> n v then None else Some w)"
  using assms by (auto simp: insert_v_def valid_def intro!: raised_bnd_None)

lemma raised_remove_back:
  assumes "deref w this = Inr v"
  shows "raised (remove_back w this) = (if n v = 0 then Some w else None)"
  using assms by (auto simp: remove_back_def empty_v_def)

lemma raised_remove:
  assumes "deref w this = Inr v" "0 \<le> n v"
  shows "raised (remove w this i) = (if 0 \<le> i \<and> i < n v then None else Some w)"
  using assms by (auto simp: remove_def valid_def raised_remove_back intro!: raised_bnd_None)

lemma raised_at:
  assumes "deref w this = Inr v"
  shows "raised (at w this i) = (if 0 \<le> i \<and> i < n v then None else Some w)"
  using assms by (auto simp: at_def valid_def)

lemma raised_front_v:
  assumes "deref w this = Inr v"
  shows "raised (front_v w this) = (if n v = 0 then Some w else None)"
  using assms by (auto simp: front_v_def empty_v_def)

lemma raised_back_v:
  assumes "deref w this = Inr v"
  shows "raised (back_v w this) = (if n v = 0 then Some w else None)"
  using assms by (auto simp: back_v_def empty_v_def)

section \<open>Insertion and removal\<close>

lemma elems_eq:
  "deref w this = Inr v \<Longrightarrow> pv v = (Some a, k) \<Longrightarrow> a < length (heap w) \<Longrightarrow>
   heap w ! a = Some buf \<Longrightarrow> elems w this = take (nat (n v)) buf"
  by (simp add: elems_def)

lemma deref_updated:
  "this < length (objs w) \<Longrightarrow> deref (updated w this v a buf) this = Inr v"
  by (simp add: updated_def deref_def)

lemma heap_updated:
  "a < length (heap w) \<Longrightarrow> heap (updated w this v a buf) ! a = Some buf"
  "length (heap (updated w this v a buf)) = length (heap w)"
  by (simp_all add: updated_def)

lemma deref_reserved:
  "this < length (objs w) \<Longrightarrow>
   deref (reserved w this v a buf c) this = Inr (v\<lparr>N := c, pv := (Some (length (heap w)), 0)\<rparr>)"
  by (simp add: reserved_def deref_def nth_list_update)

lemma heap_reserved:
  "a < length (heap w) \<Longrightarrow>
   heap (reserved w this v a buf c) ! length (heap w) =
     Some (take (nat (n v)) buf @ replicate (nat c - nat (n v)) (E0 w))"
  "length (heap (reserved w this v a buf c)) = Suc (length (heap w))"
  by (simp_all add: reserved_def nth_list_update nth_append)

lemma insert_back_room:
  assumes "deref w this = Inr v" "pv v = (Some a, 0)" "a < length (heap w)"
    and "heap w ! a = Some buf" "0 \<le> n v" "n v < int (length buf)" "n v \<noteq> N v"
  shows "insert_back w this x =
         Inr (updated w this (v\<lparr>n := n v + 1\<rparr>) a (buf[nat (n v) := x]))"
  using assms
  by (simp add: insert_back_def write_at_def begin_v_def next_p_def put_def updated_def)

lemma insert_back_grow:
  assumes "deref w this = Inr v" "n v = N v" "- INT_MAX - 1 \<le> N v * 2" "N v * 2 \<le> INT_MAX"
    and "reserve w this (N v * 2) = Inr w1" "deref w1 this = Inr v1" "n v1 \<noteq> N v1"
  shows "insert_back w this x = insert_back w1 this x"
  using assms by (simp add: insert_back_def as_int_def)

lemma insert_v_room:
  assumes "deref w this = Inr v" "pv v = (Some a, 0)" "a < length (heap w)"
    and "heap w ! a = Some buf" "0 \<le> i" "i < n v" "n v < int (length buf)" "n v \<noteq> N v"
  shows "insert_v w this i x =
         Inr (updated w this (v\<lparr>n := n v + 1\<rparr>) a
               ((blit buf (nat i) (nat (n v) - nat i) buf (Suc (nat i)))[nat i := x]))"
proof -
  let ?i = "nat i" and ?k = "nat (n v) - nat i"
  let ?w2 = "w\<lparr>heap := (heap w)[a := Some (blit buf ?i ?k buf (Suc ?i))]\<rparr>"
  have "backward_loop w (Some a, int (?i + ?k)) ?k (Some a, int (Suc ?i + ?k)) = Inr ?w2"
    using assms by (intro backward_loop_eq) auto
  moreover have "int (?i + ?k) = n v" "int (Suc ?i + ?k) = n v + 1" "int ?i = i"
    using assms by auto
  ultimately have mb: "std_move_backward w (next_p (begin_v v) i) (end_v v)
      (next_p (begin_v v) (n v + 1)) = Inr ?w2"
    using assms
    by (simp add: std_move_backward_def range_len_def begin_v_def end_v_def next_p_def
        nat_diff_distrib ac_simps)
  have len: "length (blit buf ?i ?k buf (Suc ?i)) = length buf"
    using assms by (intro length_blit) auto
  have wr: "write_at ?w2 (next_p (begin_v v) i) x =
      Inr (w\<lparr>heap := (heap w)[a := Some ((blit buf ?i ?k buf (Suc ?i))[?i := x])]\<rparr>)"
    using assms len by (simp add: write_at_def begin_v_def next_p_def)
  show ?thesis
    using assms by (simp add: insert_v_def valid_def mb wr put_def updated_def)
qed

lemma insert_v_grow:
  assumes "deref w this = Inr v" "i \<noteq> n v" "valid v i" "n v = N v"
    and "- INT_MAX - 1 \<le> N v * 2" "N v * 2 \<le> INT_MAX"
    and "reserve w this (N v * 2) = Inr w1" "deref w1 this = Inr v1" "n v1 = n v" "n v1 \<noteq> N v1"
  shows "insert_v w this i x = insert_v w1 this i x"
  using assms by (simp add: insert_v_def as_int_def valid_def)

lemma remove_back_keep:
  assumes "deref w this = Inr v" "n v \<noteq> 0" "n v \<noteq> N v sdiv 4 \<or> n v < 0"
  shows "remove_back w this = Inr w"
  using assms by (auto simp: remove_back_def empty_v_def)

lemma remove_back_shrink:
  assumes "deref w this = Inr v" "0 < n v" "n v = N v sdiv 4"
  shows "remove_back w this = reserve w this (N v sdiv 2)"
  using assms by (auto simp: remove_back_def empty_v_def)

lemma put_updated:
  "put (w\<lparr>heap := (heap w)[a := Some buf]\<rparr>) this v = updated w this v a buf"
  by (simp add: put_def updated_def)

lemma remove_shift:
  assumes "deref w this = Inr v" "pv v = (Some a, 0)" "a < length (heap w)"
    and "heap w ! a = Some buf" "0 \<le> i" "i < n v - 1" "n v \<le> int (length buf)"
  shows "remove w this i =
    (let w2 = updated w this (v\<lparr>n := n v - 1\<rparr>) a
                (blit buf (Suc (nat i)) (nat (n v) - Suc (nat i)) buf (nat i))
     in if n v - 1 = N v sdiv 4 then reserve w2 this (N v sdiv 2) else Inr w2)"
proof -
  let ?i = "nat i" and ?k = "nat (n v) - Suc (nat i)"
  let ?w1 = "w\<lparr>heap := (heap w)[a := Some (blit buf (Suc ?i) ?k buf ?i)]\<rparr>"
  have "std_copy w (Some a, int (Suc ?i)) (Some a, int (Suc ?i + ?k)) (Some a, int ?i) = Inr ?w1"
    using assms by (intro std_copy_eq) auto
  moreover have "int (Suc ?i) = i + 1" "int (Suc ?i + ?k) = n v" "int ?i = i"
    using assms by auto
  ultimately have mv: "std_move w (next_p (begin_v v) (i + 1)) (end_v v) (next_p (begin_v v) i) = Inr ?w1"
    using assms by (simp add: std_move_def begin_v_def end_v_def next_p_def ac_simps)
  have live: "this < length (objs w)"
    using assms(1) by (simp add: deref_eq_Inr)
  show ?thesis
    using assms live
    by (simp add: remove_def valid_def mv put_updated deref_updated Let_def)
qed

lemma sdiv_nonneg: "0 \<le> a \<Longrightarrow> 0 < b \<Longrightarrow> (a::int) sdiv b = a div b"
  by (simp add: signed_divide_int_def sgn_if)

lemma quarter_le_half: "0 \<le> a \<Longrightarrow> (a::int) sdiv 4 \<le> a sdiv 2"
  by (simp add: sdiv_nonneg zdiv_mono2)

lemma allocated_updated:
  "a < length (heap w) \<Longrightarrow> heap w ! a = Some old \<Longrightarrow> allocated (updated w this v a buf) = allocated w"
  by (rule nth_equalityI) (auto simp: allocated_def updated_def nth_list_update)

lemma insert_back_frame:
  assumes "deref w this = Inr v" "wf_vector w v" "n v < N v"
  shows "\<exists>w' v'. insert_back w this x = Inr w' \<and> deref w' this = Inr v' \<and>
           N v' = N v \<and> pv v' = pv v \<and> allocated w' = allocated w"
proof -
  from assms(2) obtain a buf where *: "pv v = (Some a, 0)" "a < length (heap w)"
    "heap w ! a = Some buf" "int (length buf) = N v" "0 \<le> n v" "n v \<le> N v"
    by (rule wf_vectorE)
  have "insert_back w this x = Inr (updated w this (v\<lparr>n := n v + 1\<rparr>) a (buf[nat (n v) := x]))"
    using assms * by (intro insert_back_room) auto
  moreover have "this < length (objs w)"
    using assms(1) by (simp add: deref_eq_Inr)
  ultimately show ?thesis
    using * by (simp add: deref_updated allocated_updated)
qed

lemma insert_v_frame:
  assumes "deref w this = Inr v" "wf_vector w v" "0 \<le> i" "i < n v" "n v < N v"
  shows "\<exists>w' v'. insert_v w this i x = Inr w' \<and> deref w' this = Inr v' \<and>
           N v' = N v \<and> pv v' = pv v \<and> allocated w' = allocated w"
proof -
  from assms(2) obtain a buf where *: "pv v = (Some a, 0)" "a < length (heap w)"
    "heap w ! a = Some buf" "int (length buf) = N v" "0 \<le> n v" "n v \<le> N v"
    by (rule wf_vectorE)
  have "insert_v w this i x = Inr (updated w this (v\<lparr>n := n v + 1\<rparr>) a
               ((blit buf (nat i) (nat (n v) - nat i) buf (Suc (nat i)))[nat i := x]))"
    using assms * by (intro insert_v_room) auto
  moreover have "this < length (objs w)"
    using assms(1) by (simp add: deref_eq_Inr)
  ultimately show ?thesis
    using * by (simp add: deref_updated allocated_updated)
qed

lemma wf_vector_updated:
  assumes "wf_vector w v" "pv v = (Some a, 0)" "length buf' = nat (N v)" "0 \<le> n'" "n' \<le> N v"
  shows "wf_vector (updated w this (v\<lparr>n := n'\<rparr>) a buf') (v\<lparr>n := n'\<rparr>)"
  using assms by (auto simp: wf_vector_def updated_def split: option.splits)

lemma wf_vector_reserved:
  assumes "a < length (heap w)" "0 \<le> n v" "n v \<le> c" "nat (n v) \<le> length buf"
  shows "wf_vector (reserved w this v a buf c) (v\<lparr>N := c, pv := (Some (length (heap w)), 0)\<rparr>)"
  using assms by (auto simp: wf_vector_def reserved_def nth_list_update nth_append)

lemma elems_updated:
  assumes "this < length (objs w)" "pv v = (Some a, k)" "a < length (heap w)"
  shows "elems (updated w this v a buf) this = take (nat (n v)) buf"
  using assms by (simp add: elems_def updated_def deref_def)

lemma elems_reserved:
  assumes "this < length (objs w)" "a < length (heap w)" "nat (n v) \<le> length buf"
  shows "elems (reserved w this v a buf c) this = take (nat (n v)) buf"
  using assms by (simp add: elems_def reserved_def deref_def nth_list_update nth_append)

section \<open>The invariant of a run\<close>

lemma inv_worldD:
  assumes "inv_world w" "deref w p = Inr v"
  shows "wf_vector w v" "2 \<le> N v" "\<And>q u. q \<noteq> p \<Longrightarrow> deref w q = Inr u \<Longrightarrow> fst (pv u) \<noteq> fst (pv v)"
  using assms unfolding inv_world_def by blast+

lemma inv_post_other:
  assumes "inv_world w" "deref w this = Inr v" "post w this v w' v'"
    and "q \<noteq> this" "deref w' q = Inr t"
  shows "deref w q = Inr t" "wf_vector w' t" "2 \<le> N t" "fst (pv t) \<noteq> fst (pv v')"
proof -
  have fr: "frame w this v w'" and alt: "fst (pv v') = fst (pv v) \<or>
      (\<exists>a'. fst (pv v') = Some a' \<and> length (heap w) \<le> a')"
    using assms(3) by (simp_all add: post_def)
  show dq: "deref w q = Inr t"
    using fr assms(4,5) by (simp add: frame_def)
  show "2 \<le> N t"
    using assms(1) dq by (rule inv_worldD)
  have wft: "wf_vector w t"
    using assms(1) dq by (rule inv_worldD)
  have ne: "fst (pv t) \<noteq> fst (pv v)"
    using inv_worldD(3) [OF assms(1,2) assms(4) dq] .
  from wft obtain b B where b: "pv t = (Some b, 0)" "b < length (heap w)"
    "heap w ! b = Some B" "int (length B) = N t" "0 \<le> n t" "n t \<le> N t"
    by (rule wf_vectorE)
  have "map_option length (heap w' ! b) = map_option length (heap w ! b)"
    using fr b ne by (simp add: frame_def)
  then obtain B' where "heap w' ! b = Some B'" "length B' = length B"
    using b by auto
  moreover have "b < length (heap w')"
    using fr b by (simp add: frame_def)
  ultimately show "wf_vector w' t"
    using b by (simp add: wf_vector_def)
  show "fst (pv t) \<noteq> fst (pv v')"
    using alt ne b by auto
qed

lemma inv_post:
  assumes "inv_world w" "deref w this = Inr v" "post w this v w' v'" "2 \<le> N v'"
  shows "inv_world w'"
  unfolding inv_world_def
proof (intro allI impI)
  fix p u
  assume pu: "deref w' p = Inr u"
  have dv': "deref w' this = Inr v'" and wfv': "wf_vector w' v'"
    using assms(3) by (simp_all add: post_def)
  show "wf_vector w' u \<and> 2 \<le> N u \<and>
        (\<forall>q t. q \<noteq> p \<and> deref w' q = Inr t \<longrightarrow> fst (pv t) \<noteq> fst (pv u))"
  proof (cases "p = this")
    case True
    then have "u = v'"
      using pu dv' by simp
    then show ?thesis
      using wfv' assms(4) True inv_post_other(4) [OF assms(1,2,3)] by blast
  next
    case False
    note o = inv_post_other [OF assms(1,2,3) False pu]
    have "fst (pv t) \<noteq> fst (pv u)" if "q \<noteq> p" "deref w' q = Inr t" for q t
    proof (cases "q = this")
      case True
      then have "t = v'"
        using that dv' by simp
      then show ?thesis
        using o(4) by simp
    next
      case False
      have "deref w q = Inr t"
        using inv_post_other(1) [OF assms(1,2,3) False that(2)] .
      then show ?thesis
        using inv_worldD(3) [OF assms(1) o(1) that(1)] by simp
    qed
    then show ?thesis
      using o by blast
  qed
qed

lemma post_trans:
  assumes "post w this v w1 v1" "post w1 this v1 w2 v2"
  shows "post w this v w2 v2"
proof -
  have f1: "frame w this v w1" and f2: "frame w1 this v1 w2"
    and a1: "fst (pv v1) = fst (pv v) \<or> (\<exists>a'. fst (pv v1) = Some a' \<and> length (heap w) \<le> a')"
    and a2: "fst (pv v2) = fst (pv v1) \<or> (\<exists>a'. fst (pv v2) = Some a' \<and> length (heap w1) \<le> a')"
    using assms by (simp_all add: post_def)
  have len: "length (heap w) \<le> length (heap w1)" "length (heap w1) \<le> length (heap w2)"
    using f1 f2 by (simp_all add: frame_def)
  have "map_option length (heap w2 ! b) = map_option length (heap w ! b)"
    if "b < length (heap w)" "Some b \<noteq> fst (pv v)" for b
  proof -
    have "Some b \<noteq> fst (pv v1)"
      using a1 that by auto
    then have "map_option length (heap w2 ! b) = map_option length (heap w1 ! b)"
      using f2 that len by (simp add: frame_def)
    then show ?thesis
      using f1 that by (simp add: frame_def)
  qed
  moreover have "deref w p = Inr u" if "p \<noteq> this" "deref w2 p = Inr u" for p u
    using f1 f2 that unfolding frame_def by blast
  ultimately have "frame w this v w2"
    using len by (simp add: frame_def)
  moreover have "fst (pv v2) = fst (pv v) \<or> (\<exists>a'. fst (pv v2) = Some a' \<and> length (heap w) \<le> a')"
    using a1 a2 len by auto
  ultimately show ?thesis
    using assms(2) by (simp add: post_def)
qed

lemma post_updated:
  assumes "this < length (objs w)" "wf_vector (updated w this v' a buf) v'"
    and "fst (pv v) = Some a" "fst (pv v') = Some a"
  shows "post w this v (updated w this v' a buf) v'"
  using assms
  by (auto simp: post_def frame_def deref_updated updated_def deref_def nth_list_update)

lemma post_reserved:
  assumes "this < length (objs w)" "a < length (heap w)" "0 \<le> n v" "n v \<le> c"
    and "nat (n v) \<le> length buf" "fst (pv v) = Some a"
  shows "post w this v (reserved w this v a buf c) (v\<lparr>N := c, pv := (Some (length (heap w)), 0)\<rparr>)"
proof -
  have "frame w this v (reserved w this v a buf c)"
    using assms by (auto simp: frame_def reserved_def deref_def nth_list_update nth_append)
  then show ?thesis
    using assms by (simp add: post_def deref_reserved wf_vector_reserved)
qed

lemma post_refl:
  assumes "deref w this = Inr v" "wf_vector w v"
  shows "post w this v w v"
  using assms by (simp add: post_def frame_def)

lemma take_insert_shift:
  assumes "i < m" "m < length buf"
  shows "take (Suc m) ((blit buf i (m - i) buf (Suc i))[i := x]) =
         take i (take m buf) @ x # drop i (take m buf)"
proof -
  have "(blit buf i (m - i) buf (Suc i))[i := x] =
        take i buf @ x # take (m - i) (drop i buf) @ drop (Suc m) buf"
    using assms by (simp add: blit_def list_update_append take_Suc_conv_app_nth)
  then show ?thesis
    using assms by (simp add: drop_take min_def Suc_diff_le)
qed

lemma insert_v_room_correct:
  assumes "deref w this = Inr v" "wf_vector w v" "0 \<le> i" "i \<le> n v" "n v < N v"
  shows "\<exists>w' v'. insert_v w this i x = Inr w' \<and> post w this v w' v' \<and>
           n v' = n v + 1 \<and> N v' = N v \<and>
           elems w' this = take (nat i) (elems w this) @ x # drop (nat i) (elems w this)"
proof -
  from assms(2) obtain a buf where *: "pv v = (Some a, 0)" "a < length (heap w)"
    "heap w ! a = Some buf" "int (length buf) = N v" "0 \<le> n v" "n v \<le> N v"
    by (rule wf_vectorE)
  have live: "this < length (objs w)"
    using assms(1) by (simp add: deref_eq_Inr)
  have xs: "elems w this = take (nat (n v)) buf"
    using assms(1) *(1,2,3) by (rule elems_eq)
  let ?v = "v\<lparr>n := n v + 1\<rparr>"
  show ?thesis
  proof (cases "i = n v")
    case True
    let ?buf = "buf[nat (n v) := x]"
    have "insert_v w this i x = insert_back w this x"
      using assms(1) True by (simp add: insert_v_def)
    also have "\<dots> = Inr (updated w this ?v a ?buf)"
      using assms * by (intro insert_back_room) auto
    finally have r: "insert_v w this i x = Inr (updated w this ?v a ?buf)" .
    have "wf_vector (updated w this ?v a ?buf) ?v"
      using assms * by (intro wf_vector_updated) auto
    then have "post w this v (updated w this ?v a ?buf) ?v"
      using live * by (intro post_updated) auto
    moreover have "elems (updated w this ?v a ?buf) this = take (nat (n v + 1)) ?buf"
      using live * elems_updated [of this w ?v a 0 ?buf] by simp
    moreover have "take (nat (n v + 1)) ?buf = take (nat (n v)) buf @ [x]"
      using assms * by (simp add: nat_add_distrib take_Suc_conv_app_nth)
    ultimately show ?thesis
      unfolding r xs using True
      by (intro exI [of _ "updated w this ?v a ?buf"] exI [of _ ?v]) simp
  next
    case False
    let ?buf = "(blit buf (nat i) (nat (n v) - nat i) buf (Suc (nat i)))[nat i := x]"
    have r: "insert_v w this i x = Inr (updated w this ?v a ?buf)"
      using assms * False by (intro insert_v_room) auto
    have "length ?buf = length buf"
      using assms * False by (simp add: length_blit)
    then have "wf_vector (updated w this ?v a ?buf) ?v"
      using assms * by (intro wf_vector_updated) auto
    then have "post w this v (updated w this ?v a ?buf) ?v"
      using live * by (intro post_updated) auto
    moreover have "elems (updated w this ?v a ?buf) this = take (nat (n v + 1)) ?buf"
      using live * elems_updated [of this w ?v a 0 ?buf] by simp
    moreover have "take (Suc (nat (n v))) ?buf =
        take (nat i) (take (nat (n v)) buf) @ x # drop (nat i) (take (nat (n v)) buf)"
      using assms * False by (intro take_insert_shift) auto
    ultimately show ?thesis
      unfolding r xs using *
      by (intro exI [of _ "updated w this ?v a ?buf"] exI [of _ ?v]) (simp add: nat_add_distrib)
  qed
qed

lemma insert_v_correct:
  assumes "deref w this = Inr v" "wf_vector w v" "0 \<le> i" "i \<le> n v"
    and "0 < N v" "n v = N v \<longrightarrow> N v * 2 \<le> INT_MAX"
  shows "\<exists>w' v'. insert_v w this i x = Inr w' \<and> post w this v w' v' \<and>
           n v' = n v + 1 \<and> N v \<le> N v' \<and>
           elems w' this = take (nat i) (elems w this) @ x # drop (nat i) (elems w this)"
proof (cases "n v = N v")
  case False
  then have "n v < N v"
    using assms(2) by (auto simp: wf_vector_def)
  then obtain w' v' where "insert_v w this i x = Inr w'" "post w this v w' v'"
    "n v' = n v + 1" "N v' = N v"
    "elems w' this = take (nat i) (elems w this) @ x # drop (nat i) (elems w this)"
    using insert_v_room_correct [OF assms(1,2,3,4), of x] by blast
  then show ?thesis
    by (intro exI [of _ w'] exI [of _ v']) simp
next
  case True
  from assms(2) obtain a buf where *: "pv v = (Some a, 0)" "a < length (heap w)"
    "heap w ! a = Some buf" "int (length buf) = N v" "0 \<le> n v" "n v \<le> N v"
    by (rule wf_vectorE)
  have live: "this < length (objs w)"
    using assms(1) by (simp add: deref_eq_Inr)
  have ov: "N v * 2 \<le> INT_MAX"
    using assms(6) True by simp
  let ?w1 = "reserved w this v a buf (N v * 2)"
  let ?v1 = "v\<lparr>N := N v * 2, pv := (Some (length (heap w)), 0)\<rparr>"
  have res: "reserve w this (N v * 2) = Inr ?w1"
    using assms(1,5) * by (intro reserve_eq) auto
  have d1: "deref ?w1 this = Inr ?v1"
    using live by (rule deref_reserved)
  have wf1: "wf_vector ?w1 ?v1"
    using * by (intro wf_vector_reserved) auto
  have p1: "post w this v ?w1 ?v1"
    using live * assms(5) by (intro post_reserved) auto
  have el1: "elems ?w1 this = elems w this"
    using assms(1) * live by (simp add: elems_reserved elems_eq)
  have range: "- INT_MAX - 1 \<le> N v * 2"
    using assms(5) by (simp add: INT_MAX_def)
  have "insert_v w this i x = insert_v ?w1 this i x"
  proof (cases "i = n v")
    case True
    have "insert_v w this i x = insert_back w this x"
      using assms(1) True by (simp add: insert_v_def)
    also have "\<dots> = insert_back ?w1 this x"
      using assms(1,5) \<open>n v = N v\<close> ov range res d1
      by (intro insert_back_grow [where ?v1.0 = ?v1]) auto
    also have "\<dots> = insert_v ?w1 this i x"
      using True by (simp add: insert_v_def d1)
    finally show ?thesis .
  next
    case False
    then show ?thesis
      using assms(1,3,4,5) \<open>n v = N v\<close> ov range res d1
      by (intro insert_v_grow [where ?v1.0 = ?v1]) (auto simp: valid_def)
  qed
  moreover obtain w' v' where "insert_v ?w1 this i x = Inr w'" "post ?w1 this ?v1 w' v'"
      "n v' = n ?v1 + 1" "N v' = N ?v1"
      "elems w' this = take (nat i) (elems ?w1 this) @ x # drop (nat i) (elems ?w1 this)"
    using insert_v_room_correct [OF d1 wf1, of i x] assms(3,4,5) True by auto
  ultimately show ?thesis
    using post_trans [OF p1] assms(5)
    by (intro exI [of _ w'] exI [of _ v']) (simp add: el1)
qed

lemma at_elems:
  assumes "deref w this = Inr v" "wf_vector w v" "0 \<le> i" "i < n v"
  shows "at w this i = Inr (elems w this ! nat i)"
proof -
  from assms(2) obtain a buf where *: "pv v = (Some a, 0)" "a < length (heap w)"
    "heap w ! a = Some buf" "int (length buf) = N v" "0 \<le> n v" "n v \<le> N v"
    by (rule wf_vectorE)
  have "elems w this = take (nat (n v)) buf"
    using assms(1) *(1,2,3) by (rule elems_eq)
  then show ?thesis
    using assms *
    by (simp add: at_def valid_def op_index_def begin_v_def next_p_def read_at_def)
qed

lemma remove_post:
  assumes "deref w this = Inr v" "wf_vector w v" "0 \<le> i" "i < n v"
  shows "\<exists>w' v'. remove w this i = Inr w' \<and> post w this v w' v' \<and>
           n v' = (if i = n v - 1 then n v else n v - 1) \<and>
           (N v' = N v \<and> pv v' = pv v \<and> allocated w' = allocated w \<or>
            0 < n v' \<and> n v' = N v sdiv 4 \<and> N v' = N v sdiv 2)"
proof -
  from assms(2) obtain a buf where *: "pv v = (Some a, 0)" "a < length (heap w)"
    "heap w ! a = Some buf" "int (length buf) = N v" "0 \<le> n v" "n v \<le> N v"
    by (rule wf_vectorE)
  have live: "this < length (objs w)"
    using assms(1) by (simp add: deref_eq_Inr)
  have N0: "0 \<le> N v"
    using * by simp
  show ?thesis
  proof (cases "i = n v - 1")
    case True
    then have rb: "remove w this i = remove_back w this"
      using assms(1) by (simp add: remove_def)
    have pos: "0 < n v"
      using assms(3,4) by simp
    show ?thesis
    proof (cases "n v = N v sdiv 4")
      case True
      define c where "c = N v sdiv 2"
      define w' where "w' = reserved w this v a buf c"
      define v' where "v' = v\<lparr>N := c, pv := (Some (length (heap w)), 0)\<rparr>"
      have le: "n v \<le> c"
        using True quarter_le_half [OF N0] by (simp add: c_def)
      have "remove_back w this = reserve w this c"
        unfolding c_def using assms(1) pos True by (rule remove_back_shrink)
      also have "\<dots> = Inr w'"
        unfolding w'_def using assms(1) *(1,2,3,5) _ le
        by (rule reserve_eq) (use * in simp)
      finally have r: "remove w this i = Inr w'"
        by (simp add: rb)
      have p: "post w this v w' v'"
        unfolding w'_def v'_def using live * le by (intro post_reserved) auto
      have f: "n v' = n v" "N v' = c"
        by (simp_all add: v'_def)
      show ?thesis
        using r p f pos True \<open>i = n v - 1\<close> unfolding c_def
        by (intro exI [of _ w'] exI [of _ v']) simp
    next
      case False
      have "remove_back w this = Inr w"
        using assms(1) pos False by (intro remove_back_keep) auto
      then have r: "remove w this i = Inr w"
        by (simp add: rb)
      show ?thesis
        using r post_refl [OF assms(1,2)] True
        by (intro exI [of _ w] exI [of _ v]) simp
    qed
  next
    case False
    define v2 where "v2 = v\<lparr>n := n v - 1\<rparr>"
    define buf2 where "buf2 = blit buf (Suc (nat i)) (nat (n v) - Suc (nat i)) buf (nat i)"
    define w2 where "w2 = updated w this v2 a buf2"
    have rm: "remove w this i = (if n v - 1 = N v sdiv 4 then reserve w2 this (N v sdiv 2) else Inr w2)"
      unfolding w2_def v2_def buf2_def
      using assms * False remove_shift [of w this v a buf i] by (simp add: Let_def)
    have len: "length buf2 = length buf"
      unfolding buf2_def using assms * False by (intro length_blit) auto
    have f2: "n v2 = n v - 1" "N v2 = N v" "pv v2 = pv v"
      by (simp_all add: v2_def)
    have "wf_vector w2 v2"
      unfolding w2_def v2_def using assms(2,3,4) * len by (intro wf_vector_updated) auto
    then have p2: "post w this v w2 v2"
      unfolding w2_def using live * f2 by (intro post_updated) auto
    have d2: "deref w2 this = Inr v2"
      unfolding w2_def using live by (rule deref_updated)
    have h2: "a < length (heap w2)" "heap w2 ! a = Some buf2" "this < length (objs w2)"
      using live * by (simp_all add: w2_def updated_def)
    show ?thesis
    proof (cases "n v - 1 = N v sdiv 4")
      case True
      define c where "c = N v sdiv 2"
      define w' where "w' = reserved w2 this v2 a buf2 c"
      define v' where "v' = v2\<lparr>N := c, pv := (Some (length (heap w2)), 0)\<rparr>"
      have ar: "nat (n v2) \<le> length buf2" "n v2 \<le> c" "0 \<le> n v2"
        using assms(3,4) *(4,6) True quarter_le_half [OF N0] by (simp_all add: f2 len c_def)
      have pv2: "pv v2 = (Some a, 0)"
        using * by (simp add: f2)
      have "reserve w2 this c = Inr w'"
        unfolding w'_def using d2 pv2 h2(1,2) ar(3,1,2) by (rule reserve_eq)
      then have r: "remove w this i = Inr w'"
        using True by (simp add: rm c_def)
      have "post w2 this v2 w' v'"
        unfolding w'_def v'_def using h2 ar pv2 by (intro post_reserved) auto
      then have p: "post w this v w' v'"
        by (rule post_trans [OF p2])
      have f: "n v' = n v - 1" "N v' = c"
        by (simp_all add: v'_def f2)
      have "0 < n v - 1"
        using assms(3,4) False by simp
      then show ?thesis
        using r p f True False unfolding c_def
        by (intro exI [of _ w'] exI [of _ v']) simp
    next
      case False
      then have r: "remove w this i = Inr w2"
        by (simp add: rm)
      have "allocated w2 = allocated w"
        unfolding w2_def using * by (intro allocated_updated) auto
      then show ?thesis
        using r p2 f2 \<open>i \<noteq> n v - 1\<close>
        by (intro exI [of _ w2] exI [of _ v2]) simp
    qed
  qed
qed

lemma remove_frame:
  assumes "deref w this = Inr v" "wf_vector w v" "0 \<le> i" "i < n v"
  shows "\<exists>w' v'. remove w this i = Inr w' \<and> deref w' this = Inr v' \<and>
           (n v' = 0 \<or> n v' \<noteq> N v sdiv 4 \<longrightarrow>
              N v' = N v \<and> pv v' = pv v \<and> allocated w' = allocated w)"
proof -
  obtain w' v' where "remove w this i = Inr w'" "post w this v w' v'"
    "N v' = N v \<and> pv v' = pv v \<and> allocated w' = allocated w \<or>
     0 < n v' \<and> n v' = N v sdiv 4 \<and> N v' = N v sdiv 2"
    using remove_post [OF assms] by blast
  then show ?thesis
    by (intro exI [of _ w'] exI [of _ v']) (auto simp: post_def)
qed

section \<open>Concatenation\<close>

lemma as_int_eq: "- INT_MAX - 1 \<le> k \<Longrightarrow> k \<le> INT_MAX \<Longrightarrow> as_int k = Inr k"
  by (simp add: as_int_def)

lemma deref_heap_update [simp]: "deref (w\<lparr>heap := h\<rparr>) p = deref w p"
  by (simp add: deref_def)

lemma op_plus_assign_self:
  assumes "deref w this = Inr v" "wf_vector w v" "N v + N v \<le> INT_MAX"
  shows "\<exists>w' v'. op_plus_assign w this this = Inr w' \<and> post w this v w' v' \<and>
           n v' = n v + n v \<and> N v' = N v + N v \<and>
           elems w' this = elems w this @ elems w this"
proof -
  from assms(2) obtain a buf where *: "pv v = (Some a, 0)" "a < length (heap w)"
    "heap w ! a = Some buf" "int (length buf) = N v" "0 \<le> n v" "n v \<le> N v"
    by (rule wf_vectorE)
  have live: "this < length (objs w)"
    using assms(1) by (simp add: deref_eq_Inr)
  define c where "c = N v + N v"
  define m where "m = n v + n v"
  have cm: "n v \<le> c" "0 \<le> m" "m \<le> c" "nat m = nat (n v) + nat (n v)"
    "- INT_MAX - 1 \<le> c" "c \<le> INT_MAX"
    using assms(3) * by (auto simp: c_def m_def INT_MAX_def)
  let ?h = "length (heap w)" and ?k = "nat (n v)"
  let ?w1 = "reserved w this v a buf c"
  let ?v1 = "v\<lparr>N := c, pv := (Some ?h, 0)\<rparr>"
  let ?B = "take ?k buf @ replicate (nat c - ?k) (E0 w)"
  let ?B' = "blit ?B 0 ?k ?B ?k"
  let ?v2 = "?v1\<lparr>n := m\<rparr>"
  let ?w' = "updated ?w1 this ?v2 ?h ?B'"
  have c: "as_int c = Inr c"
    using cm by (intro as_int_eq)
  have res: "reserve w this c = Inr ?w1"
    using assms * cm by (intro reserve_eq) auto
  have d1: "deref ?w1 this = Inr ?v1"
    using live by (rule deref_reserved)
  have h1: "heap ?w1 ! ?h = Some ?B" "?h < length (heap ?w1)"
    using * by (simp_all add: heap_reserved)
  have lenB: "length ?B = nat c"
    using * cm by simp
  have "std_copy ?w1 (Some ?h, int 0) (Some ?h, int (0 + ?k)) (Some ?h, int ?k) =
        Inr (?w1\<lparr>heap := (heap ?w1)[?h := Some ?B']\<rparr>)"
    using h1 lenB * cm by (intro std_copy_eq) auto
  then have cp: "std_copy ?w1 (begin_v ?v1) (end_v ?v1) (end_v ?v1) =
        Inr (?w1\<lparr>heap := (heap ?w1)[?h := Some ?B']\<rparr>)"
    using * by (simp add: begin_v_def end_v_def next_p_def)
  have d2: "deref (?w1\<lparr>heap := (heap ?w1)[?h := Some ?B']\<rparr>) this = Inr ?v1"
    using d1 by simp
  have "op_plus_assign w this this = bnd (as_int c) (\<lambda>count.
     bnd (reserve w this count) (\<lambda>w1.
     bnd (deref w1 this) (\<lambda>v1.
     bnd (deref w1 this) (\<lambda>t1.
     bnd (std_copy w1 (begin_v t1) (end_v t1) (end_v v1)) (\<lambda>w2.
     bnd (deref w2 this) (\<lambda>v2.
     bnd (deref w2 this) (\<lambda>t2.
     Inr (put w2 this (v2\<lparr>n := n v2 + n t2\<rparr>)))))))))"
    using assms(1) unfolding op_plus_assign_def c_def by simp
  then have r: "op_plus_assign w this this = Inr ?w'"
    by (simp add: c res d1 cp d2 put_updated m_def)
  have lenB': "length ?B' = nat c"
    using lenB * cm by (simp add: length_blit)
  have live1: "this < length (objs ?w1)"
    using d1 by (simp add: deref_eq_Inr)
  have d': "deref ?w' this = Inr ?v2"
    using live1 by (rule deref_updated)
  have wf': "wf_vector ?w' ?v2"
    using h1 lenB' * cm by (simp add: wf_vector_def updated_def)
  have "elems ?w' this = take (nat (n ?v2)) ?B'"
    using live1 h1 by (intro elems_updated [where k = 0]) auto
  also have "\<dots> = take (?k + ?k) ?B'"
    using cm by simp
  also have "\<dots> = take ?k buf @ take ?k buf"
  proof -
    have k: "?k \<le> length buf"
      using * by simp
    then have "length (take ?k buf) = ?k"
      by simp
    moreover have "?B' = take ?k buf @ take ?k buf @ drop (?k + ?k) ?B"
      using k by (simp add: blit_def)
    ultimately show ?thesis
      by (simp del: length_take)
  qed
  finally have "elems ?w' this = take ?k buf @ take ?k buf" .
  moreover have "elems w this = take ?k buf"
    using assms(1) *(1,2,3) by (rule elems_eq)
  ultimately have el: "elems ?w' this = elems w this @ elems w this"
    by simp
  have "post w this v ?w1 ?v1"
    using live * cm by (intro post_reserved) auto
  moreover have "post ?w1 this ?v1 ?w' ?v2"
    using live1 wf' by (intro post_updated) auto
  ultimately have "post w this v ?w' ?v2"
    by (rule post_trans)
  then show ?thesis
    unfolding r using el
    by (intro exI [of _ ?w'] exI [of _ ?v2]) (simp add: m_def c_def)
qed

lemma Vector_copy_eq:
  assumes "deref w that = Inr t" "pv t = (Some b, 0)" "b < length (heap w)" "heap w ! b = Some A"
    and "0 \<le> n t" "n t \<le> N t" "nat (n t) \<le> length A"
  shows "Vector_copy w that =
         Inr (w\<lparr>heap := heap w @ [Some (take (nat (n t)) A @ replicate (nat (N t) - nat (n t)) (E0 w))],
                objs := objs w @ [Some \<lparr>n = n t, N = N t, pv = (Some (length (heap w)), 0)\<rparr>]\<rparr>,
              length (objs w))"
proof -
  let ?h = "length (heap w)" and ?k = "nat (n t)"
  let ?R = "replicate (nat (N t)) (E0 w)"
  let ?u = "\<lparr>n = n t, N = N t, pv = (Some ?h, 0)\<rparr>"
  let ?w2 = "w\<lparr>heap := heap w @ [Some ?R], objs := objs w @ [Some ?u]\<rparr>"
  have na: "new_array w (N t) = Inr (w\<lparr>heap := heap w @ [Some ?R]\<rparr>, (Some ?h, 0))"
    using assms by (simp add: new_array_def)
  have "std_copy ?w2 (Some b, int 0) (Some b, int (0 + ?k)) (Some ?h, int 0) =
        Inr (?w2\<lparr>heap := (heap ?w2)[?h := Some (blit A 0 ?k ?R 0)]\<rparr>)"
    using assms by (intro std_copy_eq) (auto simp: nth_append)
  then have cp: "std_copy ?w2 (begin_v t) (end_v t) (Some ?h, 0) =
        Inr (?w2\<lparr>heap := heap w @ [Some (blit A 0 ?k ?R 0)]\<rparr>)"
    using assms by (simp add: begin_v_def end_v_def next_p_def)
  have bl: "blit A 0 ?k ?R 0 = take ?k A @ replicate (nat (N t) - ?k) (E0 w)"
    by (simp add: blit_def)
  show ?thesis
    using assms(1) by (simp add: Vector_copy_def na new_object_def cp bl)
qed

lemma op_plus_assign_other:
  assumes "deref w this = Inr v" "pv v = (Some a, 0)" "a < length (heap w)" "heap w ! a = Some buf"
    and "0 \<le> n v" "n v \<le> N v" "int (length buf) = N v"
    and "deref w that = Inr t" "pv t = (Some b, 0)" "b < length (heap w)" "heap w ! b = Some A"
    and "0 \<le> n t" "n t \<le> N t" "int (length A) = N t"
    and "this \<noteq> that" "a \<noteq> b" "N v + N t \<le> INT_MAX"
  shows "op_plus_assign w this that =
         Inr (updated (reserved w this v a buf (N v + N t)) this
               (v\<lparr>N := N v + N t, pv := (Some (length (heap w)), 0), n := n v + n t\<rparr>)
               (length (heap w))
               (take (nat (n v)) buf @ take (nat (n t)) A @
                replicate (nat (N v + N t) - (nat (n v) + nat (n t))) (E0 w)))"
proof -
  define c where "c = N v + N t"
  have cm: "n v \<le> c" "- INT_MAX - 1 \<le> c" "c \<le> INT_MAX" "nat (n v) + nat (n t) \<le> nat c"
    using assms by (auto simp: c_def INT_MAX_def)
  let ?h = "length (heap w)" and ?k = "nat (n v)" and ?j = "nat (n t)"
  let ?w1 = "reserved w this v a buf c"
  let ?v1 = "v\<lparr>N := c, pv := (Some ?h, 0)\<rparr>"
  let ?B = "take ?k buf @ replicate (nat c - ?k) (E0 w)"
  let ?B' = "blit A 0 ?j ?B ?k"
  have live: "this < length (objs w)" "that < length (objs w)" "objs w ! that = Some t"
    using assms(1,8) by (simp_all add: deref_eq_Inr)
  have c: "as_int c = Inr c"
    using cm by (intro as_int_eq)
  have res: "reserve w this c = Inr ?w1"
    using assms cm by (intro reserve_eq) auto
  have d1: "deref ?w1 this = Inr ?v1"
    using live by (intro deref_reserved)
  have t1: "deref ?w1 that = Inr t"
    using live assms(15) by (simp add: reserved_def deref_def nth_append nth_list_update)
  have h1: "heap ?w1 ! ?h = Some ?B" "?h < length (heap ?w1)"
    using assms(3) by (simp_all add: heap_reserved)
  have hb: "heap ?w1 ! b = Some A" "b < length (heap ?w1)"
    using assms by (simp_all add: reserved_def nth_append nth_list_update)
  have lenB: "length ?B = nat c"
    using assms cm by simp
  have "std_copy ?w1 (Some b, int 0) (Some b, int (0 + ?j)) (Some ?h, int ?k) =
        Inr (?w1\<lparr>heap := (heap ?w1)[?h := Some ?B']\<rparr>)"
    using h1 hb lenB assms cm by (intro std_copy_eq) auto
  then have cp: "std_copy ?w1 (begin_v t) (end_v t) (end_v ?v1) =
        Inr (?w1\<lparr>heap := (heap ?w1)[?h := Some ?B']\<rparr>)"
    using assms by (simp add: begin_v_def end_v_def next_p_def)
  have "op_plus_assign w this that = bnd (as_int c) (\<lambda>count.
     bnd (reserve w this count) (\<lambda>w1.
     bnd (deref w1 this) (\<lambda>v1.
     bnd (deref w1 that) (\<lambda>t1.
     bnd (std_copy w1 (begin_v t1) (end_v t1) (end_v v1)) (\<lambda>w2.
     bnd (deref w2 this) (\<lambda>v2.
     bnd (deref w2 that) (\<lambda>t2.
     Inr (put w2 this (v2\<lparr>n := n v2 + n t2\<rparr>)))))))))"
    using assms(1,8) unfolding op_plus_assign_def c_def by simp
  then have r: "op_plus_assign w this that =
      Inr (updated ?w1 this (?v1\<lparr>n := n v + n t\<rparr>) ?h ?B')"
    by (simp add: c res d1 t1 cp put_updated)
  have "?B' = take ?k buf @ take ?j A @ replicate (nat c - (?k + ?j)) (E0 w)"
    using assms cm by (simp add: blit_def)
  then show ?thesis
    unfolding r c_def by simp
qed

lemma op_plus_eq:
  assumes "deref w a = Inr va" "pv va = (Some aa, 0)" "aa < length (heap w)" "heap w ! aa = Some A"
    and "0 \<le> n va" "n va \<le> N va" "int (length A) = N va"
    and "deref w rhs = Inr vb" "pv vb = (Some b, 0)" "b < length (heap w)" "heap w ! b = Some B"
    and "0 \<le> n vb" "n vb \<le> N vb" "int (length B) = N vb"
    and "N va + N vb \<le> INT_MAX"
  shows "op_plus w a rhs =
         Inr (w\<lparr>heap := heap w @ [None, Some (take (nat (n va)) A @ take (nat (n vb)) B @
                  replicate (nat (N va + N vb) - (nat (n va) + nat (n vb))) (E0 w))],
                objs := objs w @ [None, None,
                  Some \<lparr>n = n va + n vb, N = N va + N vb, pv = (Some (Suc (length (heap w))), 0)\<rparr>]\<rparr>,
              Suc (Suc (length (objs w))))"
proof -
  define h where "h = length (heap w)"
  define lhs where "lhs = length (objs w)"
  define L where "L = take (nat (n va)) A @ replicate (nat (N va) - nat (n va)) (E0 w)"
  define u where "u = \<lparr>n = n va, N = N va, pv = (Some h, 0)\<rparr>"
  define w1 where "w1 = w\<lparr>heap := heap w @ [Some L], objs := objs w @ [Some u]\<rparr>"
  define R where "R = take (nat (n va)) A @ take (nat (n vb)) B @
            replicate (nat (N va + N vb) - (nat (n va) + nat (n vb))) (E0 w)"
  define u' where "u' = \<lparr>n = n va + n vb, N = N va + N vb, pv = (Some (Suc h), 0)\<rparr>"
  define w2 where "w2 = w\<lparr>heap := heap w @ [None, Some R], objs := objs w @ [Some u', None]\<rparr>"
  have live: "a < length (objs w)" "rhs < length (objs w)" "objs w ! rhs = Some vb"
    using assms(1,8) by (simp_all add: deref_eq_Inr)
  have kA: "nat (n va) \<le> length A"
    using assms(5,6,7) by simp
  have cp: "Vector_copy w a = Inr (w1, lhs)"
    unfolding w1_def lhs_def u_def L_def h_def using assms by (intro Vector_copy_eq) auto
  have "op_plus_assign w1 lhs rhs =
         Inr (updated (reserved w1 lhs u h L (N u + N vb)) lhs
               (u\<lparr>N := N u + N vb, pv := (Some (length (heap w1)), 0), n := n u + n vb\<rparr>)
               (length (heap w1))
               (take (nat (n u)) L @ take (nat (n vb)) B @
                replicate (nat (N u + N vb) - (nat (n u) + nat (n vb))) (E0 w1)))"
  proof (rule op_plus_assign_other)
    show "deref w1 lhs = Inr u" by (simp add: deref_def w1_def lhs_def)
    show "deref w1 rhs = Inr vb" using live by (simp add: deref_def nth_append w1_def)
    show "heap w1 ! b = Some B" using assms by (simp add: nth_append w1_def)
    show "heap w1 ! h = Some L" by (simp add: w1_def h_def)
    show "int (length L) = N u" using assms by (simp add: L_def u_def)
  qed (use assms live in \<open>auto simp: u_def w1_def h_def lhs_def\<close>)
  also have "\<dots> = Inr w2"
    using kA
    by (simp add: updated_def reserved_def w1_def w2_def u_def u'_def R_def L_def h_def lhs_def
        list_update_append nth_append)
  finally have pa: "op_plus_assign w1 lhs rhs = Inr w2" .
  have d2: "deref w2 lhs = Inr u'"
    by (simp add: w2_def lhs_def deref_def)
  show ?thesis
    by (simp add: op_plus_def cp pa Vector_move_def d2 new_object_def Vector_dtor_def deref_def
        put_def delete_array_def nth_append list_update_append)
      (simp add: w2_def lhs_def u'_def R_def h_def)
qed

lemma op_plus_assign_post:
  assumes "deref w this = Inr v" "wf_vector w v" "deref w that = Inr t" "wf_vector w t"
    and "this \<noteq> that \<longrightarrow> fst (pv v) \<noteq> fst (pv t)" "N v + N t \<le> INT_MAX"
  shows "\<exists>w' v'. op_plus_assign w this that = Inr w' \<and> post w this v w' v' \<and>
           n v' = n v + n t \<and> N v' = N v + N t \<and>
           elems w' this = elems w this @ elems w that"
proof (cases "this = that")
  case True
  then have "t = v"
    using assms(1,3) by simp
  then show ?thesis
    using op_plus_assign_self [OF assms(1,2)] assms(6) True by simp
next
  case False
  from assms(2) obtain a buf where a: "pv v = (Some a, 0)" "a < length (heap w)"
    "heap w ! a = Some buf" "int (length buf) = N v" "0 \<le> n v" "n v \<le> N v"
    by (rule wf_vectorE)
  from assms(4) obtain b A where b: "pv t = (Some b, 0)" "b < length (heap w)"
    "heap w ! b = Some A" "int (length A) = N t" "0 \<le> n t" "n t \<le> N t"
    by (rule wf_vectorE)
  have ab: "a \<noteq> b"
    using assms(5) False a b by simp
  have live: "this < length (objs w)"
    using assms(1) by (simp add: deref_eq_Inr)
  define c where "c = N v + N t"
  define w1 where "w1 = reserved w this v a buf c"
  define v1 where "v1 = v\<lparr>N := c, pv := (Some (length (heap w)), 0)\<rparr>"
  define R where "R = take (nat (n v)) buf @ take (nat (n t)) A @
                replicate (nat c - (nat (n v) + nat (n t))) (E0 w)"
  define v' where "v' = v1\<lparr>n := n v + n t\<rparr>"
  define w' where "w' = updated w1 this v' (length (heap w)) R"
  have cm: "n v \<le> c" "nat (n v) + nat (n t) \<le> nat c" "0 \<le> c"
    using a b by (auto simp: c_def)
  have r: "op_plus_assign w this that = Inr w'"
    unfolding w'_def v'_def v1_def w1_def R_def c_def
    using assms(1) a(1,2,3,5,6,4) assms(3) b(1,2,3,5,6,4) False ab assms(6)
    by (rule op_plus_assign_other)
  have p1: "post w this v w1 v1"
    unfolding w1_def v1_def using live a cm by (intro post_reserved) auto
  have lenR: "length R = nat c"
    using a b cm by (simp add: R_def)
  have live1: "this < length (objs w1)" "length (heap w) < length (heap w1)"
    using live by (simp_all add: w1_def reserved_def)
  have wf': "wf_vector w' v'"
    using live1 lenR a b cm
    by (simp add: wf_vector_def w'_def v'_def v1_def updated_def c_def)
  have p2: "post w1 this v1 w' v'"
    unfolding w'_def using live1 wf' by (intro post_updated) (auto simp: w'_def v'_def v1_def)
  have p: "post w this v w' v'"
    using p1 p2 by (rule post_trans)
  have "elems w' this = take (nat (n v')) R"
    unfolding w'_def using live1 by (intro elems_updated [where k = 0]) (auto simp: v'_def v1_def)
  also have "\<dots> = take (nat (n v)) buf @ take (nat (n t)) A"
    using a b by (simp add: R_def v'_def nat_add_distrib)
  finally have "elems w' this = elems w this @ elems w that"
    using assms(1,3) a b by (simp add: elems_eq)
  then show ?thesis
    using r p by (intro exI [of _ w'] exI [of _ v']) (simp add: v'_def v1_def c_def)
qed

section \<open>Every call keeps the invariant\<close>

lemma Vector_eq_fields: "(a::Vector)\<lparr>n := n b, N := N b, pv := pv b\<rparr> = b"
  by (cases a, cases b) simp

lemma Vector_fields: "\<lparr>n = n v, N = N v, pv = pv v\<rparr> = (v::Vector)"
  by (cases v) simp

lemma wf_vector_objs [simp]: "wf_vector (w\<lparr>objs := x\<rparr>) v = wf_vector w v"
  by (simp add: wf_vector_def cong: prod.case_cong option.case_cong)

lemma wf_vector_append:
  "wf_vector w v \<Longrightarrow> wf_vector (w\<lparr>heap := heap w @ hs\<rparr>) v"
  by (auto simp: wf_vector_def nth_append split: prod.splits option.splits)

lemma inv_world_extend:
  assumes "inv_world w" "0 \<le> n u" "n u \<le> N u" "2 \<le> N u"
    and "pv u = (Some (length (heap w) + length hs), 0)" "int (length R) = N u"
  shows "inv_world (w\<lparr>heap := heap w @ hs @ [Some R], objs := objs w @ replicate k None @ [Some u]\<rparr>)"
    (is "inv_world ?w'")
  unfolding inv_world_def
proof (intro allI impI)
  fix p v
  assume pv: "deref ?w' p = Inr v"
  have wfu: "wf_vector ?w' u"
    using assms by (simp add: wf_vector_def nth_append)
  have old: "deref w q = Inr t \<and> wf_vector ?w' t \<and> 2 \<le> N t \<and> fst (pv t) \<noteq> fst (pv u)"
    if "deref ?w' q = Inr t" "q \<noteq> length (objs w) + k" for q t
  proof -
    have q: "q < length (objs w)" "objs w ! q = Some t"
      using that
      by (auto simp: deref_eq_Inr nth_append split: if_splits)
    then have d: "deref w q = Inr t"
      by (simp add: deref_eq_Inr)
    have wft: "wf_vector w t"
      using assms(1) d by (rule inv_worldD)
    then have "wf_vector (w\<lparr>heap := heap w @ (hs @ [Some R])\<rparr>) t"
      by (rule wf_vector_append)
    moreover have "fst (pv t) \<noteq> fst (pv u)"
      using wft assms(5) by (auto simp: wf_vector_def split: prod.splits option.splits)
    ultimately show ?thesis
      using d inv_worldD(2) [OF assms(1) d] by simp
  qed
  have new: "t = u" if "deref ?w' (length (objs w) + k) = Inr t" for t
    using that by (simp add: deref_eq_Inr nth_append)
  show "wf_vector ?w' v \<and> 2 \<le> N v \<and>
        (\<forall>q t. q \<noteq> p \<and> deref ?w' q = Inr t \<longrightarrow> fst (pv t) \<noteq> fst (pv v))"
  proof (cases "p = length (objs w) + k")
    case True
    then have "v = u"
      using pv new by simp
    then show ?thesis
      using wfu assms(4) old True by auto
  next
    case False
    note o = old [OF pv False]
    have "fst (pv t) \<noteq> fst (pv v)" if "q \<noteq> p" "deref ?w' q = Inr t" for q t
    proof (cases "q = length (objs w) + k")
      case True
      then have "t = u"
        using that new by simp
      then show ?thesis
        using o by auto
    next
      case False
      have "deref w q = Inr t"
        using old [OF that(2) False] by simp
      then show ?thesis
        using inv_worldD(3) [OF assms(1) _ that(1)] o by simp
    qed
    then show ?thesis
      using o by blast
  qed
qed

lemma inv_Vector_ctor:
  assumes "inv_world w" "Vector_ctor w count = Inr (w', p)" "2 \<le> count"
  shows "inv_world w'"
proof -
  have "w' = w\<lparr>heap := heap w @ [] @ [Some (replicate (nat count) (E0 w))],
               objs := objs w @ replicate 0 None @ [Some \<lparr>n = 0, N = count, pv = (Some (length (heap w)), 0)\<rparr>]\<rparr>"
    using assms(2,3) by (auto simp: Vector_ctor_def new_array_def new_object_def)
  moreover have "inv_world \<dots>"
    using assms(1,3) by (intro inv_world_extend) auto
  ultimately show ?thesis
    by simp
qed

lemma inv_Vector_copy:
  assumes "inv_world w" "Vector_copy w that = Inr (w', p)"
  shows "inv_world w'"
proof -
  obtain t where d: "deref w that = Inr t"
    using assms(2) by (auto simp: Vector_copy_def bnd_eq_Inr)
  have wft: "wf_vector w t" and N2: "2 \<le> N t"
    using assms(1) d by (rule inv_worldD)+
  from wft obtain b A where b: "pv t = (Some b, 0)" "b < length (heap w)"
    "heap w ! b = Some A" "int (length A) = N t" "0 \<le> n t" "n t \<le> N t"
    by (rule wf_vectorE)
  let ?R = "take (nat (n t)) A @ replicate (nat (N t) - nat (n t)) (E0 w)"
  let ?u = "\<lparr>n = n t, N = N t, pv = (Some (length (heap w)), 0)\<rparr>"
  have "Vector_copy w that = Inr (w\<lparr>heap := heap w @ [Some ?R], objs := objs w @ [Some ?u]\<rparr>, length (objs w))"
    using d b by (intro Vector_copy_eq) auto
  then have "w' = w\<lparr>heap := heap w @ [] @ [Some ?R], objs := objs w @ replicate 0 None @ [Some ?u]\<rparr>"
    using assms(2) by simp
  moreover have "inv_world \<dots>"
    using assms(1) b N2 by (intro inv_world_extend) auto
  ultimately show ?thesis
    by simp
qed

text \<open>A world whose live vectors are live vectors of \<open>w\<close>, read through an injective
  renaming of the cells, over arrays that those vectors see unchanged.\<close>

lemma inv_world_renamed:
  assumes "inv_world w"
    and "\<And>p v. deref w' p = Inr v \<Longrightarrow> deref w (f p) = Inr v \<and> wf_vector w' v"
    and "\<And>p q u v. deref w' p = Inr v \<Longrightarrow> deref w' q = Inr u \<Longrightarrow> p \<noteq> q \<Longrightarrow> f p \<noteq> f q"
  shows "inv_world w'"
  unfolding inv_world_def
proof (intro allI impI conjI)
  fix p v
  assume pv: "deref w' p = Inr v"
  then have d: "deref w (f p) = Inr v"
    using assms(2) by blast
  show "wf_vector w' v"
    using assms(2) pv by blast
  show "2 \<le> N v"
    using assms(1) d by (rule inv_worldD)
  fix q u
  assume "q \<noteq> p \<and> deref w' q = Inr u"
  then have "f q \<noteq> f p" "deref w (f q) = Inr u"
    using assms(2,3) pv by blast+
  then show "fst (pv u) \<noteq> fst (pv v)"
    using inv_worldD(3) [OF assms(1) d] by blast
qed

lemma inv_swap_v:
  assumes "inv_world w" "swap_v w p q = Inr w'"
  shows "inv_world w'"
proof -
  obtain a b where a: "deref w p = Inr a" and b: "deref w q = Inr b"
    using assms(2) by (auto simp: swap_v_def bnd_eq_Inr)
  have w': "w' = w\<lparr>objs := (objs w)[p := Some b, q := Some a]\<rparr>"
    using assms(2) a b by (simp add: swap_v_def put_def Vector_eq_fields)
  define f where "f r = (if r = p then q else if r = q then p else r)" for r
  have live: "p < length (objs w)" "objs w ! p = Some a" "q < length (objs w)" "objs w ! q = Some b"
    using a b by (simp_all add: deref_eq_Inr)
  have d: "deref w' r = deref w (f r)" for r
    using live by (auto simp: w' f_def deref_def nth_list_update)
  show ?thesis
  proof (rule inv_world_renamed [OF assms(1), where f = f])
    fix r v
    assume "deref w' r = Inr v"
    then have "deref w (f r) = Inr v"
      by (simp add: d)
    moreover from this have "wf_vector w v"
      using assms(1) by (rule inv_worldD [rotated])
    ultimately show "deref w (f r) = Inr v \<and> wf_vector w' v"
      by (simp add: w')
  next
    fix r s :: nat
    assume "r \<noteq> s"
    then show "f r \<noteq> f s"
      by (auto simp: f_def split: if_splits)
  qed
qed

lemma inv_Vector_dtor:
  assumes "inv_world w" "Vector_dtor w p = Inr w'"
  shows "inv_world w'"
proof -
  obtain v where v: "deref w p = Inr v"
    using assms(2) by (auto simp: Vector_dtor_def bnd_eq_Inr)
  have "wf_vector w v"
    using assms(1) v by (rule inv_worldD)
  then obtain a buf where a: "pv v = (Some a, 0)" "a < length (heap w)"
    "heap w ! a = Some buf" "int (length buf) = N v" "0 \<le> n v" "n v \<le> N v"
    by (rule wf_vectorE)
  have w': "w' = w\<lparr>heap := (heap w)[a := None], objs := (objs w)[p := None]\<rparr>"
    using assms(2) v a by (simp add: Vector_dtor_def delete_array_def)
  show ?thesis
  proof (rule inv_world_renamed [OF assms(1), where f = "\<lambda>r. r"])
    fix r u
    assume "deref w' r = Inr u"
    moreover have "p < length (objs w)"
      using v by (simp add: deref_eq_Inr)
    ultimately have r: "r \<noteq> p" "deref w r = Inr u"
      by (auto simp: w' deref_eq_Inr nth_list_update split: if_splits)
    then have "wf_vector w u" "fst (pv u) \<noteq> fst (pv v)"
      using inv_worldD [OF assms(1) v] inv_worldD(1) [OF assms(1) r(2)] by blast+
    then have "wf_vector w' u"
      using a by (auto simp: w' wf_vector_def nth_list_update split: prod.splits option.splits)
    then show "deref w r = Inr u \<and> wf_vector w' u"
      using r by simp
  qed simp
qed

lemma inv_move_dtor:
  assumes "inv_world w" "Vector_move w x = Inr (w1, r)" "Vector_dtor w1 x = Inr w'"
  shows "inv_world w'"
proof -
  obtain v where v: "deref w x = Inr v"
    using assms(2) by (auto simp: Vector_move_def bnd_eq_Inr)
  have live: "x < length (objs w)" "objs w ! x = Some v"
    using v by (simp_all add: deref_eq_Inr)
  have w1: "w1 = w\<lparr>objs := (objs w @ [Some v])[x := Some (v\<lparr>pv := (None, 0)\<rparr>)]\<rparr>"
    using assms(2) v by (simp add: Vector_move_def new_object_def put_def Vector_fields)
  have w': "w' = w\<lparr>objs := (objs w @ [Some v])[x := None]\<rparr>"
    using assms(3) live
    by (simp add: w1 Vector_dtor_def deref_def delete_array_def nth_list_update nth_append)
  define f where "f s = (if s = length (objs w) then x else s)" for s
  show ?thesis
  proof (rule inv_world_renamed [OF assms(1), where f = f])
    fix s u
    assume "deref w' s = Inr u"
    then have "deref w (f s) = Inr u"
      using live by (auto simp: w' f_def deref_def nth_list_update nth_append split: if_splits)
    moreover from this have "wf_vector w u"
      using assms(1) by (rule inv_worldD [rotated])
    ultimately show "deref w (f s) = Inr u \<and> wf_vector w' u"
      by (simp add: w')
  next
    fix s t :: nat and u u' :: Vector
    assume "deref w' s = Inr u'" "deref w' t = Inr u" "s \<noteq> t"
    then show "f s \<noteq> f t"
      using live by (auto simp: w' f_def deref_def nth_list_update nth_append split: if_splits)
  qed
qed

lemma half_ge_2: "0 \<le> a \<Longrightarrow> 0 < a sdiv 4 \<Longrightarrow> 2 \<le> (a::int) sdiv 2"
  by (simp add: sdiv_nonneg)

lemma raised_Inr_None: "r = Inr x \<Longrightarrow> raised r = None"
  by simp

lemma insert_v_overflow:
  assumes "deref w this = Inr v" "n v = N v" "INT_MAX < N v * 2" "0 \<le> i" "i \<le> n v"
  shows "insert_v w this i x = Inl (Undefined SignedOverflow)"
  using assms by (simp add: insert_v_def insert_back_def as_int_def valid_def)

lemma inv_insert_v:
  assumes "inv_world w" "insert_v w this i x = Inr w'"
  shows "inv_world w'"
proof -
  obtain v where v: "deref w this = Inr v"
    using assms(2) by (auto simp: insert_v_def bnd_eq_Inr)
  have wf: "wf_vector w v" and N2: "2 \<le> N v"
    using assms(1) v by (rule inv_worldD)+
  have n0: "0 \<le> n v"
    using wf by (simp add: wf_vector_def)
  have i: "0 \<le> i" "i \<le> n v"
    using raised_insert_v [OF v n0, of i x] assms(2) by (auto split: if_splits)
  have ov: "n v = N v \<longrightarrow> N v * 2 \<le> INT_MAX"
  proof (rule impI, rule ccontr)
    assume "n v = N v" "\<not> N v * 2 \<le> INT_MAX"
    then have "insert_v w this i x = Inl (Undefined SignedOverflow)"
      using insert_v_overflow [OF v _ _ i] by simp
    then show False
      using assms(2) by simp
  qed
  obtain w'' v' where "insert_v w this i x = Inr w''" "post w this v w'' v'" "N v \<le> N v'"
    using insert_v_correct [OF v wf i _ ov, of x] N2 by auto
  then show ?thesis
    using assms inv_post [OF assms(1) v, of w'' v'] N2 by simp
qed

lemma inv_insert_back:
  assumes "inv_world w" "insert_back w this x = Inr w'"
  shows "inv_world w'"
proof -
  obtain v where v: "deref w this = Inr v"
    using assms(2) by (auto simp: insert_back_def bnd_eq_Inr)
  then have "insert_v w this (n v) x = insert_back w this x"
    by (simp add: insert_v_def)
  then show ?thesis
    using assms inv_insert_v by metis
qed

lemma inv_remove:
  assumes "inv_world w" "remove w this i = Inr w'"
  shows "inv_world w'"
proof -
  obtain v where v: "deref w this = Inr v"
    using assms(2) by (auto simp: remove_def bnd_eq_Inr)
  have wf: "wf_vector w v" and N2: "2 \<le> N v"
    using assms(1) v by (rule inv_worldD)+
  have n0: "0 \<le> n v"
    using wf by (simp add: wf_vector_def)
  have i: "0 \<le> i" "i < n v"
    using raised_remove [OF v n0, of i] assms(2) by (auto split: if_splits)
  obtain w'' v' where r: "remove w this i = Inr w''" "post w this v w'' v'"
    "N v' = N v \<and> pv v' = pv v \<and> allocated w'' = allocated w \<or>
     0 < n v' \<and> n v' = N v sdiv 4 \<and> N v' = N v sdiv 2"
    using remove_post [OF v wf i] by blast
  then have "2 \<le> N v'"
    using N2 half_ge_2 [of "N v"] by auto
  then show ?thesis
    using assms r inv_post [OF assms(1) v, of w'' v'] by simp
qed

lemma inv_remove_back:
  assumes "inv_world w" "remove_back w this = Inr w'"
  shows "inv_world w'"
proof -
  obtain v where v: "deref w this = Inr v"
    using assms(2) by (auto simp: remove_back_def bnd_eq_Inr)
  then have "remove w this (n v - 1) = remove_back w this"
    by (simp add: remove_def)
  then show ?thesis
    using assms inv_remove by metis
qed

lemma post_put_n:
  assumes "deref w this = Inr v" "wf_vector w v" "0 \<le> k" "k \<le> N v"
  shows "post w this v (put w this (v\<lparr>n := k\<rparr>)) (v\<lparr>n := k\<rparr>)"
proof -
  have "this < length (objs w)"
    using assms(1) by (simp add: deref_eq_Inr)
  then show ?thesis
    using assms
    by (auto simp: post_def frame_def put_def deref_def wf_vector_def nth_list_update
        split: prod.splits option.splits)
qed

lemma inv_clear:
  assumes "inv_world w" "clear w this = Inr w'"
  shows "inv_world w'"
proof -
  obtain v where v: "deref w this = Inr v"
    using assms(2) by (auto simp: clear_def bnd_eq_Inr)
  have wf: "wf_vector w v" and N2: "2 \<le> N v"
    using assms(1) v by (rule inv_worldD)+
  have "w' = put w this (v\<lparr>n := 0\<rparr>)"
    using assms(2) v by (simp add: clear_def)
  moreover have "post w this v (put w this (v\<lparr>n := 0\<rparr>)) (v\<lparr>n := 0\<rparr>)"
    using v wf N2 by (intro post_put_n) auto
  ultimately show ?thesis
    using inv_post [OF assms(1) v] N2 by simp
qed

lemma as_int_Inr: "as_int k = Inr c \<Longrightarrow> c = k \<and> k \<le> INT_MAX"
  by (auto simp: as_int_def split: if_splits)

lemma inv_op_plus_assign:
  assumes "inv_world w" "op_plus_assign w this that = Inr w'"
  shows "inv_world w'"
proof -
  obtain v where v: "deref w this = Inr v"
    using assms(2) by (cases "deref w this") (simp_all add: op_plus_assign_def)
  obtain t where t: "deref w that = Inr t"
    using assms(2) v by (cases "deref w that") (simp_all add: op_plus_assign_def)
  have ov: "N v + N t \<le> INT_MAX"
    using assms(2) v t by (auto simp: op_plus_assign_def bnd_eq_Inr as_int_def split: if_splits)
  have wf: "wf_vector w v" "wf_vector w t" and N2: "2 \<le> N v" "2 \<le> N t"
    using assms(1) v t by (blast dest: inv_worldD)+
  have own: "this \<noteq> that \<longrightarrow> fst (pv v) \<noteq> fst (pv t)"
    using inv_worldD(3) [OF assms(1) t, of this v] v by auto
  obtain w'' v' where "op_plus_assign w this that = Inr w''" "post w this v w'' v'"
    "N v' = N v + N t"
    using op_plus_assign_post [OF v wf(1) t wf(2) own ov] by blast
  then show ?thesis
    using assms inv_post [OF assms(1) v, of w'' v'] N2 by simp
qed

lemma inv_op_assign:
  assumes "inv_world w" "op_assign w this src = Inr w'"
  shows "inv_world w'"
proof -
  obtain w1 that w2 where "Vector_copy w src = Inr (w1, that)" "swap_v w1 this that = Inr w2"
    "Vector_dtor w2 that = Inr w'"
    using assms(2) by (auto simp: op_assign_def bnd_eq_Inr split: prod.splits)
  then show ?thesis
    using assms(1) inv_Vector_copy inv_swap_v inv_Vector_dtor by blast
qed

lemma inv_op_plus:
  assumes "inv_world w" "op_plus w a rhs = Inr (w', r)"
  shows "inv_world w'"
proof -
  obtain w1 lhs w2 w3 res where "Vector_copy w a = Inr (w1, lhs)"
    "op_plus_assign w1 lhs rhs = Inr w2" "Vector_move w2 lhs = Inr (w3, res)"
    "Vector_dtor w3 lhs = Inr w'"
    using assms(2) by (auto simp: op_plus_def bnd_eq_Inr split: prod.splits)
  then show ?thesis
    using assms(1) inv_Vector_copy inv_op_plus_assign inv_move_dtor by blast
qed

lemma exec_inv:
  assumes "inv_world w" "exec w c = Inr w'"
  shows "inv_world w'"
proof (cases c)
  case Create
  then obtain p where "Vector_ctor w DEFAULT_CAPACITY = Inr (w', p)"
    using assms(2) by (auto simp: bnd_eq_Inr)
  then show ?thesis
    using inv_Vector_ctor [OF assms(1), of DEFAULT_CAPACITY w' p]
    by (simp add: DEFAULT_CAPACITY_def)
next
  case (Plus a b)
  then obtain r where "op_plus w a b = Inr (w', r)"
    using assms(2) by (auto simp: bnd_eq_Inr)
  then show ?thesis
    using assms(1) inv_op_plus by blast
qed (use assms inv_insert_back inv_insert_v inv_remove inv_remove_back inv_clear inv_swap_v
      inv_op_assign inv_op_plus_assign in auto)

lemma raised_clear [simp]: "raised (clear w p) = None"
  by (auto simp: clear_def intro!: raised_bnd_None)

lemma raised_Vector_copy [simp]: "raised (Vector_copy w t) = None"
  by (auto simp: Vector_copy_def new_object_def intro!: raised_bnd_None)

lemma raised_Vector_move [simp]: "raised (Vector_move w t) = None"
  by (auto simp: Vector_move_def new_object_def intro!: raised_bnd_None)

lemma raised_op_assign [simp]: "raised (op_assign w p q) = None"
  by (auto simp: op_assign_def intro!: raised_bnd_None)

lemma raised_op_plus_assign [simp]: "raised (op_plus_assign w p q) = None"
  by (auto simp: op_plus_assign_def intro!: raised_bnd_None)

lemma raised_op_plus [simp]: "raised (op_plus w p q) = None"
  by (auto simp: op_plus_def intro!: raised_bnd_None)

lemma raised_remove_back_world:
  "raised (remove_back w this) = None \<or> raised (remove_back w this) = Some w"
proof (cases "deref w this")
  case (Inl f)
  then have "thrown f = None"
    using raised_deref [of w this] by simp
  then show ?thesis
    using Inl by (simp add: remove_back_def)
next
  case (Inr v)
  then show ?thesis
    by (simp add: remove_back_def)
qed

lemma raised_insert_v_world: "raised (insert_v w this i x) = Some w' \<Longrightarrow> w' = w"
proof (cases "deref w this")
  case (Inl f)
  then have "thrown f = None"
    using raised_deref [of w this] by simp
  then show "raised (insert_v w this i x) = Some w' \<Longrightarrow> w' = w"
    using Inl by (simp add: insert_v_def)
next
  case (Inr v)
  assume "raised (insert_v w this i x) = Some w'"
  then have "raised (if i = n v then insert_back w this x
     else if \<not> valid v i then Inl (Throw (out_of_range ''Vector::insert() i out of range.'') w)
     else
       bnd (if n v = N v then bnd (as_int (N v * 2)) (reserve w this) else Inr w) (\<lambda>w1.
       bnd (deref w1 this) (\<lambda>v1.
       bnd (std_move_backward w1 (next_p (begin_v v1) i) (end_v v1)
              (next_p (begin_v v1) (n v1 + 1))) (\<lambda>w2.
       bnd (write_at w2 (next_p (begin_v v1) i) x) (\<lambda>w3.
       Inr (put w3 this (v1\<lparr>n := n v1 + 1\<rparr>))))))) = Some w'"
    using Inr by (simp add: insert_v_def)
  then show "w' = w"
    by (rule raised_guarded) (auto intro!: raised_bnd_None)
qed

lemma raised_remove_world: "raised (remove w this i) = Some w' \<Longrightarrow> w' = w"
proof (cases "deref w this")
  case (Inl f)
  then have "thrown f = None"
    using raised_deref [of w this] by simp
  then show "raised (remove w this i) = Some w' \<Longrightarrow> w' = w"
    using Inl by (simp add: remove_def)
next
  case (Inr v)
  assume "raised (remove w this i) = Some w'"
  then have "raised (if i = n v - 1 then remove_back w this
     else if \<not> valid v i then Inl (Throw (out_of_range ''Vector::remove() i out of range.'') w)
     else
       bnd (std_move w (next_p (begin_v v) (i + 1)) (end_v v) (next_p (begin_v v) i)) (\<lambda>w1.
       case put w1 this (v\<lparr>n := n v - 1\<rparr>) of w2 \<Rightarrow>
       bnd (deref w2 this) (\<lambda>v2.
       if n v2 > 0 \<and> n v2 = N v2 sdiv 4 then reserve w2 this (N v2 sdiv 2)
       else Inr w2))) = Some w'"
    using Inr by (simp add: remove_def)
  then show "w' = w"
    by (rule raised_guarded) (auto intro!: raised_bnd_None simp: raised_remove_back_world)
qed

lemma exec_raised: "raised (exec w c) = Some w' \<Longrightarrow> w' = w"
proof (cases c)
  case Create
  have "raised (bnd (Vector_ctor w DEFAULT_CAPACITY) (\<lambda>(w', v). Inr w')) = None"
    by (auto intro!: raised_bnd_None)
  then show "raised (exec w c) = Some w' \<Longrightarrow> w' = w"
    using Create by simp
next
  case (Plus a b)
  have "raised (bnd (op_plus w a b) (\<lambda>(w', r). Inr w')) = None"
    by (auto intro!: raised_bnd_None)
  then show "raised (exec w c) = Some w' \<Longrightarrow> w' = w"
    using Plus by simp
next
  case (RemoveBack v)
  then show "raised (exec w c) = Some w' \<Longrightarrow> w' = w"
    using raised_remove_back_world [of w v] by auto
qed (auto dest: raised_insert_v_world raised_remove_world)

lemma run_inv:
  assumes "inv_world w" "run w cs = Inr w'"
  shows "inv_world w'"
  using assms
proof (induction cs arbitrary: w)
  case Nil
  then show ?case by simp
next
  case (Cons c cs)
  show ?case
  proof (cases "exec w c")
    case (Inr w1)
    then have "inv_world w1" "run w1 cs = Inr w'"
      using Cons.prems exec_inv by auto
    then show ?thesis
      by (rule Cons.IH)
  next
    case (Inl f)
    then obtain msg w1 where f: "f = Throw (out_of_range msg) w1" and r: "run w1 cs = Inr w'"
      using Cons.prems(2) by (auto split: fault.splits exn.splits)
    then have "w1 = w"
      using exec_raised [of w c w1] Inl by simp
    then show ?thesis
      using Cons.IH Cons.prems(1) r by simp
  qed
qed

lemma inv_empty_world: "inv_world (empty_world e)"
  by (simp add: inv_world_def empty_world_def deref_def)

section \<open>The claims\<close>

text \<open>
  C1. The scenario of the specification: a vector created with the default
  capacity 10, \<^verbatim>\<open>insert_back\<close> of 0..10, then \<^verbatim>\<open>remove_back\<close> eight times. After the
  insertions \<^verbatim>\<open>size()\<close> is 11, \<^verbatim>\<open>capacity()\<close> is 20 and \<^verbatim>\<open>at(10)\<close> is 10, as claimed.
  After the eight removals \<^verbatim>\<open>size()\<close> is still 11, not 3: \<^verbatim>\<open>remove_back\<close> never
  decrements \<^verbatim>\<open>n\<close>.
\<close>

theorem C1_scenario_size_stays_11:
  "bnd (Vector_ctor (empty_world (0::int)) DEFAULT_CAPACITY) (\<lambda>(w, v).
     bnd (insert_back_each w v [0, 1, 2, 3, 4, 5, 6, 7, 8, 9, 10]) (\<lambda>w1.
     bnd (remove_back_times w1 v 8) (\<lambda>w2.
     Inr (size_v w1 v, capacity w1 v, at w1 v 10, size_v w2 v))))
   = Inr (Inr 11, Inr 20, Inr 10, Inr 11)"
  by code_simp

text \<open>
  C2. \<^verbatim>\<open>remove_back\<close> on a vector that holds one element (default capacity)
  returns normally and leaves the world as it was: \<^verbatim>\<open>size()\<close> is 1 before and
  after, where the claim says the length is decremented by one.
\<close>

theorem C2_remove_back_keeps_length:
  "bnd (Vector_ctor (empty_world (0::int)) DEFAULT_CAPACITY) (\<lambda>(w, v).
     bnd (insert_back w v 7) (\<lambda>w1.
     bnd (remove_back w1 v) (\<lambda>w2.
     Inr (size_v w1 v, size_v w2 v, w2 = w1))))
   = Inr (Inr 1, Inr 1, True)"
  by code_simp

text \<open>
  C3. On a vector created with capacity 0 the first \<^verbatim>\<open>insert_back\<close> calls
  \<^verbatim>\<open>reserve(0 * 2)\<close>, which leaves the capacity at 0, and then writes slot 0 of an
  array that has no slot: undefined behaviour, where the claim says the growth
  step makes the capacity positive and the insertion succeeds.
\<close>

theorem C3_insert_back_capacity_0_undefined:
  "bnd (Vector_ctor w 0) (\<lambda>(w1, v). insert_back w1 v x) = Inl (Undefined BadAccess)"
  by (simp add: Vector_ctor_def new_array_def new_object_def insert_back_def deref_def
      as_int_def INT_MAX_def reserve_def std_move_def std_copy_def range_len_def begin_v_def
      end_v_def next_p_def swap_v_def put_def Vector_dtor_def delete_array_def write_at_def
      nth_append)

text \<open>
  C4, as stated: the capacity of a vector created with the default capacity
  never drops below 10. It does: with three elements in a vector of capacity 10,
  \<^verbatim>\<open>remove\<close> at index 0 leaves \<^verbatim>\<open>n == 2 == 10 / 4\<close> and calls \<^verbatim>\<open>reserve(5)\<close>.
  The source has no minimum capacity.
\<close>

theorem C4_capacity_drops_to_5:
  "run (empty_world 0) [Create, InsertBack 0 1, InsertBack 0 2, InsertBack 0 3, Remove 0 0]
     = Inr world_shrunk \<and>
   size_v world_shrunk 0 = Inr 2 \<and> capacity world_shrunk 0 = Inr 5 \<and>
   \<not> DEFAULT_CAPACITY \<le> 5"
  by code_simp

text \<open>
  C4, amended: in every world that a client reaches from nothing by creating
  vectors with the default capacity and calling \<^verbatim>\<open>insert_back\<close>, \<^verbatim>\<open>insert\<close>,
  \<^verbatim>\<open>remove\<close>, \<^verbatim>\<open>remove_back\<close>, \<^verbatim>\<open>clear\<close>, \<^verbatim>\<open>swap\<close>, \<^verbatim>\<open>operator=\<close>, \<^verbatim>\<open>operator+=\<close> and \<^verbatim>\<open>operator+\<close>
  on them (catching \<^verbatim>\<open>std::out_of_range\<close>), every live vector has
  \<^verbatim>\<open>0 <= n <= N\<close> and \<^verbatim>\<open>N >= 2\<close>.
\<close>

theorem C4_capacity_invariant:
  assumes "run (empty_world e) cs = Inr w" and "deref w p = Inr v"
  shows "0 \<le> n v \<and> n v \<le> N v \<and> 2 \<le> N v"
proof -
  have "inv_world w"
    using inv_empty_world assms(1) by (rule run_inv)
  then have "wf_vector w v" "2 \<le> N v"
    using assms(2) by (rule inv_worldD)+
  then show ?thesis
    by (simp add: wf_vector_def)
qed

theorem C4_capacity_invariant_witness:
  "run (empty_world 0) [Create, InsertBack 0 1, InsertBack 0 2, InsertBack 0 3, Remove 0 0]
     = Inr world_shrunk \<and>
   deref world_shrunk 0 = Inr \<lparr>n = 2, N = 5, pv = (Some 1, 0)\<rparr> \<and>
   0 \<le> n \<lparr>n = 2, N = 5, pv = (Some 1, 0)\<rparr> \<and>
   n \<lparr>n = 2, N = 5, pv = (Some 1, 0)\<rparr> \<le> N \<lparr>n = 2, N = 5, pv = (Some 1, 0)\<rparr> \<and>
   2 \<le> N \<lparr>n = 2, N = 5, pv = (Some 1, 0)\<rparr>"
proof -
  have r: "run (empty_world 0) [Create, InsertBack 0 1, InsertBack 0 2, InsertBack 0 3, Remove 0 0]
     = Inr world_shrunk"
    by code_simp
  have d: "deref world_shrunk 0 = Inr \<lparr>n = 2, N = 5, pv = (Some 1, 0)\<rparr>"
    by (simp add: deref_def world_shrunk_def)
  show ?thesis
    using C4_capacity_invariant [OF r d] r d by simp
qed

lemma world_2_reachable:
  "run (empty_world 0) [Create, InsertBack 0 7, Create, InsertBack 1 8, InsertBack 1 9] = Inr world_2"
  by code_simp

text \<open>
  C5, as stated: move construction leaves the source empty. It does not: the
  constructor copies \<^verbatim>\<open>n\<close>, \<^verbatim>\<open>N\<close> and \<^verbatim>\<open>pv\<close> and sets only \<^verbatim>\<open>that.pv\<close> to null, so a
  moved-from vector that held one element still reports \<^verbatim>\<open>size() == 1\<close>.
\<close>

theorem C5_moved_from_keeps_size:
  "Vector_move world_2 0 = Inr (world_2_moved, 2) \<and> size_v world_2 0 = Inr 1 \<and>
   size_v world_2_moved 0 = Inr 1 \<and> size_v world_2_moved 0 \<noteq> Inr 0"
  by (simp add: Vector_move_def world_2_def world_2_moved_def vec_1_def vec_2_def deref_def
      new_object_def put_def size_v_def)

text \<open>
  C5, amended: move construction from \<^verbatim>\<open>x\<close> gives the new vector the array, the
  length and the capacity of \<^verbatim>\<open>x\<close> and leaves \<^verbatim>\<open>x\<close> with a null array pointer and
  its old \<^verbatim>\<open>n\<close> and \<^verbatim>\<open>N\<close>; no array is allocated, freed or written. Destroying the
  moved-from \<^verbatim>\<open>x\<close> then succeeds and leaves every array, and the new vector, as
  they are: \<^verbatim>\<open>delete[]\<close> of the null pointer does nothing.
\<close>

theorem C5_move_then_destroy:
  assumes "deref w x = Inr v"
  shows "\<exists>w' w''. Vector_move w x = Inr (w', length (objs w)) \<and>
           deref w' (length (objs w)) = Inr \<lparr>n = n v, N = N v, pv = pv v\<rparr> \<and>
           deref w' x = Inr (v\<lparr>pv := (None, 0)\<rparr>) \<and>
           heap w' = heap w \<and>
           Vector_dtor w' x = Inr w'' \<and>
           heap w'' = heap w \<and>
           deref w'' (length (objs w)) = Inr \<lparr>n = n v, N = N v, pv = pv v\<rparr> \<and>
           deref w'' x = Inl (Undefined DeadObject)"
proof -
  have live: "x < length (objs w)" "objs w ! x = Some v"
    using assms by (simp_all add: deref_eq_Inr)
  then show ?thesis
    by (simp add: Vector_move_def assms new_object_def put_def Vector_dtor_def deref_def
        delete_array_def nth_append nth_list_update)
qed

theorem C5_move_then_destroy_witness:
  "deref world_2 0 = Inr vec_1 \<and>
   (\<exists>w' w''. Vector_move world_2 0 = Inr (w', 2) \<and>
      deref w' 2 = Inr vec_1 \<and>
      deref w' 0 = Inr \<lparr>n = 1, N = 10, pv = (None, 0)\<rparr> \<and>
      heap w' = heap world_2 \<and>
      Vector_dtor w' 0 = Inr w'' \<and>
      heap w'' = heap world_2 \<and>
      deref w'' 2 = Inr vec_1 \<and>
      deref w'' 0 = Inl (Undefined DeadObject))"
proof -
  have d: "deref world_2 0 = Inr vec_1"
    by (simp add: deref_def world_2_def)
  show ?thesis
    using C5_move_then_destroy [OF d] d by (simp add: world_2_def vec_1_def numeral_2_eq_2)
qed

text \<open>
  C6. On a vector created with capacity 0, \<^verbatim>\<open>insert\<close> at index 0 (which is its
  length) delegates to \<^verbatim>\<open>insert_back\<close> and runs into the undefined write of C3,
  where the claim promises that \<^verbatim>\<open>at(0)\<close> then returns the value. For every
  vector with a positive capacity the claim holds (\<open>insert_v_correct\<close>,
  \<open>at_elems\<close> above).
\<close>

theorem C6_insert_capacity_0_undefined:
  "bnd (Vector_ctor w 0) (\<lambda>(w1, v). insert_v w1 v 0 x) = Inl (Undefined BadAccess)"
  by (simp add: Vector_ctor_def new_array_def new_object_def insert_v_def insert_back_def
      deref_def as_int_def INT_MAX_def reserve_def std_move_def std_copy_def range_len_def
      begin_v_def end_v_def next_p_def swap_v_def put_def Vector_dtor_def delete_array_def
      write_at_def nth_append)

text \<open>
  C7. For a live vector with \<^verbatim>\<open>n >= 0\<close>: \<^verbatim>\<open>insert\<close> throws \<^verbatim>\<open>std::out_of_range\<close>
  exactly when the index is outside \<open>[0, n]\<close>; \<^verbatim>\<open>remove\<close> and \<^verbatim>\<open>at\<close> exactly when it
  is outside \<open>[0, n)\<close>; \<^verbatim>\<open>front\<close>, \<^verbatim>\<open>back\<close> and \<^verbatim>\<open>remove_back\<close> exactly when \<^verbatim>\<open>n == 0\<close>.
  Whenever one of them throws, the world at the throw is the world of the call:
  no vector and no array has changed. (Both conditions of the specification
  are \<^verbatim>\<open>std::out_of_range\<close> in the source; they differ in the message only.)
\<close>

theorem C7_checked_operations:
  assumes "deref w this = Inr v" and "0 \<le> n v"
  shows "raised (insert_v w this i x) = (if 0 \<le> i \<and> i \<le> n v then None else Some w) \<and>
         raised (remove w this i) = (if 0 \<le> i \<and> i < n v then None else Some w) \<and>
         raised (at w this i) = (if 0 \<le> i \<and> i < n v then None else Some w) \<and>
         raised (front_v w this) = (if n v = 0 then Some w else None) \<and>
         raised (back_v w this) = (if n v = 0 then Some w else None) \<and>
         raised (remove_back w this) = (if n v = 0 then Some w else None)"
  using assms
  by (simp only: raised_insert_v raised_remove raised_at raised_front_v raised_back_v
      raised_remove_back simp_thms)

theorem C7_checked_operations_witness:
  "deref world_2 0 = Inr vec_1 \<and> 0 \<le> n vec_1 \<and>
   raised (insert_v world_2 0 5 9) = Some world_2 \<and>
   raised (remove world_2 0 5) = Some world_2 \<and>
   raised (at world_2 0 5) = Some world_2 \<and>
   raised (front_v world_2 0) = None \<and>
   raised (back_v world_2 0) = None \<and>
   raised (remove_back world_2 0) = None"
proof -
  have d: "deref world_2 0 = Inr vec_1" and k: "0 \<le> n vec_1"
    by (simp_all add: deref_def world_2_def vec_1_def)
  show ?thesis
    using C7_checked_operations [OF d k, of 5 9] d k by (simp add: vec_1_def)
qed

text \<open>
  C8. For well-formed vectors \<^verbatim>\<open>a\<close> and \<^verbatim>\<open>b\<close> (which may be the same vector) whose
  capacities add up within the range of \<^verbatim>\<open>int\<close>, \<^verbatim>\<open>a + b\<close> returns a new vector of
  size \<^verbatim>\<open>a.size() + b.size()\<close> whose elements are those of \<^verbatim>\<open>a\<close> followed by
  those of \<^verbatim>\<open>b\<close>; \<^verbatim>\<open>a\<close> and \<^verbatim>\<open>b\<close> keep their fields and their elements.
\<close>

theorem C8_concatenate:
  assumes "deref w a = Inr va" and "wf_vector w va"
    and "deref w b = Inr vb" and "wf_vector w vb"
    and "N va + N vb \<le> INT_MAX"
  shows "\<exists>w' r. op_plus w a b = Inr (w', r) \<and>
           size_v w' r = Inr (n va + n vb) \<and>
           elems w' r = elems w a @ elems w b \<and>
           deref w' a = Inr va \<and> deref w' b = Inr vb \<and>
           elems w' a = elems w a \<and> elems w' b = elems w b"
proof -
  from assms(2) obtain aa A where a: "pv va = (Some aa, 0)" "aa < length (heap w)"
    "heap w ! aa = Some A" "int (length A) = N va" "0 \<le> n va" "n va \<le> N va"
    by (rule wf_vectorE)
  from assms(4) obtain bb B where b: "pv vb = (Some bb, 0)" "bb < length (heap w)"
    "heap w ! bb = Some B" "int (length B) = N vb" "0 \<le> n vb" "n vb \<le> N vb"
    by (rule wf_vectorE)
  have live: "a < length (objs w)" "objs w ! a = Some va" "b < length (objs w)" "objs w ! b = Some vb"
    using assms(1,3) by (simp_all add: deref_eq_Inr)
  have ea: "elems w a = take (nat (n va)) A" and eb: "elems w b = take (nat (n vb)) B"
    using assms(1,3) a b by (simp_all add: elems_eq)
  have len: "nat (n va) \<le> length A" "nat (n vb) \<le> length B"
    using a b by simp_all
  have r: "op_plus w a b =
         Inr (w\<lparr>heap := heap w @ [None, Some (take (nat (n va)) A @ take (nat (n vb)) B @
                  replicate (nat (N va + N vb) - (nat (n va) + nat (n vb))) (E0 w))],
                objs := objs w @ [None, None,
                  Some \<lparr>n = n va + n vb, N = N va + N vb, pv = (Some (Suc (length (heap w))), 0)\<rparr>]\<rparr>,
              Suc (Suc (length (objs w))))"
    using assms(1) a(1,2,3,5,6,4) assms(3) b(1,2,3,5,6,4) assms(5) by (rule op_plus_eq)
  show ?thesis
    unfolding r ea eb using live a b len
    by (simp add: size_v_def deref_def elems_def nth_append nat_add_distrib)
qed

theorem C8_concatenate_witness:
  "deref world_2 0 = Inr vec_1 \<and> wf_vector world_2 vec_1 \<and>
   deref world_2 1 = Inr vec_2 \<and> wf_vector world_2 vec_2 \<and>
   N vec_1 + N vec_2 \<le> INT_MAX \<and>
   (\<exists>w' r. op_plus world_2 0 1 = Inr (w', r) \<and>
      size_v w' r = Inr 3 \<and> elems w' r = [7, 8, 9] \<and>
      deref w' 0 = Inr vec_1 \<and> deref w' 1 = Inr vec_2 \<and>
      elems w' 0 = [7] \<and> elems w' 1 = [8, 9])"
proof -
  have h: "deref world_2 0 = Inr vec_1" "wf_vector world_2 vec_1"
    "deref world_2 1 = Inr vec_2" "wf_vector world_2 vec_2" "N vec_1 + N vec_2 \<le> INT_MAX"
    by (simp_all add: deref_def wf_vector_def world_2_def vec_1_def vec_2_def INT_MAX_def)
  have e: "elems world_2 0 = [7]" "elems world_2 (Suc 0) = [8, 9]" "n vec_1 + n vec_2 = 3"
    by (simp_all add: elems_def deref_def world_2_def vec_1_def vec_2_def)
  show ?thesis
    using C8_concatenate [OF h] h by (simp add: e)
qed

text \<open>
  C9. For a well-formed vector whose doubled capacity is within the range of
  \<^verbatim>\<open>int\<close>, \<^verbatim>\<open>v += v\<close> returns, the vector is well formed afterwards, its size has
  doubled and its elements are the old elements followed by the old elements.
\<close>

theorem C9_self_append:
  assumes "deref w this = Inr v" and "wf_vector w v" and "N v + N v \<le> INT_MAX"
  shows "\<exists>w' v'. op_plus_assign w this this = Inr w' \<and> deref w' this = Inr v' \<and>
           wf_vector w' v' \<and> size_v w' this = Inr (2 * n v) \<and>
           elems w' this = elems w this @ elems w this"
proof -
  obtain w' v' where "op_plus_assign w this this = Inr w'" "deref w' this = Inr v'"
    "wf_vector w' v'" "n v' = n v + n v" "elems w' this = elems w this @ elems w this"
    using op_plus_assign_self [OF assms] unfolding post_def by blast
  then show ?thesis
    by (simp add: size_v_def)
qed

theorem C9_self_append_witness:
  "deref world_2 1 = Inr vec_2 \<and> wf_vector world_2 vec_2 \<and> N vec_2 + N vec_2 \<le> INT_MAX \<and>
   (\<exists>w' v'. op_plus_assign world_2 1 1 = Inr w' \<and> deref w' 1 = Inr v' \<and>
      wf_vector w' v' \<and> size_v w' 1 = Inr 4 \<and> elems w' 1 = [8, 9, 8, 9])"
proof -
  have h: "deref world_2 1 = Inr vec_2" "wf_vector world_2 vec_2" "N vec_2 + N vec_2 \<le> INT_MAX"
    by (simp_all add: deref_def wf_vector_def world_2_def vec_1_def vec_2_def INT_MAX_def)
  have e: "elems world_2 (Suc 0) = [8, 9]" "2 * n vec_2 = 4"
    by (simp_all add: elems_def deref_def world_2_def vec_2_def)
  show ?thesis
    using C9_self_append [OF h] h by (simp add: e)
qed

text \<open>
  C10. With \<^verbatim>\<open>n < N\<close>, \<^verbatim>\<open>insert_back\<close> and \<^verbatim>\<open>insert\<close> inside the vector leave \<^verbatim>\<open>N\<close>,
  \<^verbatim>\<open>pv\<close> and the live arrays as they were (\<open>insert_back_frame\<close>,
  \<open>insert_v_frame\<close> above). The removal part fails at the last index: there
  \<^verbatim>\<open>remove\<close> is \<^verbatim>\<open>remove_back\<close>, which tests the length it found, not the
  length a removal leaves. On the vector 8, 9 of capacity 10, removing index 1
  should leave length 1, which is not 10 / 4, so the capacity should stay;
  the call halves it to 5, moves the elements to a new array, and still
  reports size 2.
\<close>

theorem C10_remove_last_reallocates:
  "remove world_2 1 1 = Inr world_2_tail_removed \<and>
   size_v world_2 1 = Inr 2 \<and> capacity world_2 1 = Inr 10 \<and>
   allocated world_2 = [True, True] \<and>
   size_v world_2_tail_removed 1 = Inr 2 \<and> capacity world_2_tail_removed 1 = Inr 5 \<and>
   allocated world_2_tail_removed = [True, False, True]"
  by code_simp

end
